theory Spec2Isabelle
  imports Complex_Main "HOL-Library.Word" "HOL-Library.Log_Nat"
begin

unbundle bit_operations_syntax

section \<open>JavaScript numbers\<close>

text \<open>
  Every number of \<^verbatim>\<open>app.js\<close> is an IEEE 754 binary64 value. The finite ones are
  modelled by the real number they denote, and every arithmetic operator rounds its exact
  result to the nearest binary64 value, ties to the even significand (\<open>fl\<close>).
  \<open>expo x\<close> is the binary exponent of \<open>x\<close> (\<open>2 ^ expo x \<le> \<bar>x\<bar> < 2 ^ (expo x + 1)\<close>);
  below \<open>2 ^ - 1022\<close> the spacing stays that of the subnormal numbers.
  NaN, the infinities and the sign of zero are not represented. The program divides only
  by the constants 255, 2, 3 and 6, by the three divisors of \<open>rgbToHsl\<close>, which are not
  zero on bytes (\<open>rgbToHsl_divisors\<close>), and in \<^verbatim>\<open>img.onload\<close> by a width above 2048; the
  numbers of the colour conversion stay below 256 in size, far from the overflow threshold
  \<open>2 ^ 1024\<close>.
\<close>

type_synonym number = real

definition pow2 :: "int \<Rightarrow> real" where
  "pow2 e = (if 0 \<le> e then 2 ^ nat e else 1 / 2 ^ nat (- e))"

definition expo :: "real \<Rightarrow> int" where
  "expo x = (if 1 \<le> \<bar>x\<bar> then bitlen \<lfloor>\<bar>x\<bar>\<rfloor> - 1 else - bitlen (\<lceil>1 / \<bar>x\<bar>\<rceil> - 1))"

definition round_even :: "real \<Rightarrow> int" where
  "round_even y = (let f = \<lfloor>y\<rfloor>; r = y - of_int f in
     if r < 1 / 2 then f else if 1 / 2 < r then f + 1 else if even f then f else f + 1)"

definition fl :: "real \<Rightarrow> number" where
  "fl x = (if x = 0 then 0 else
     let u = pow2 (max (expo x) (- 1022) - 52) in of_int (round_even (x / u)) * u)"

definition js_add :: "number \<Rightarrow> number \<Rightarrow> number" where
  "js_add x y = fl (x + y)"

definition js_sub :: "number \<Rightarrow> number \<Rightarrow> number" where
  "js_sub x y = fl (x - y)"

definition js_mul :: "number \<Rightarrow> number \<Rightarrow> number" where
  "js_mul x y = fl (x * y)"

definition js_div :: "number \<Rightarrow> number \<Rightarrow> number" where
  "js_div x y = fl (x / y)"

text \<open>\<^verbatim>\<open>Math.round\<close>: the nearest integer, a tie going towards plus infinity.\<close>

definition math_round :: "number \<Rightarrow> number" where
  "math_round x = of_int \<lfloor>x + 1 / 2\<rfloor>"

section \<open>Pixel buffers\<close>

text \<open>
  \<^verbatim>\<open>ImageData.data\<close> is a \<^verbatim>\<open>Uint8ClampedArray\<close> holding four bytes per pixel, in the
  order red, green, blue, alpha. A buffer is modelled as the list of its pixels; the loop of
  \<^verbatim>\<open>applyColor\<close> advances by one pixel (\<^verbatim>\<open>i += 4\<close>) per iteration.
\<close>

type_synonym byte = "8 word"

record pixel =
  red :: byte
  green :: byte
  blue :: byte
  alpha :: byte

text \<open>Reading an element of the array gives a number.\<close>

definition byte_num :: "byte \<Rightarrow> number" where
  "byte_num v = of_nat (unat v)"

text \<open>
  Storing a number into a \<^verbatim>\<open>Uint8ClampedArray\<close> (ECMAScript \<^verbatim>\<open>ToUint8Clamp\<close>): clamp
  to 0..255, then round to the nearest integer, a tie going to the even one.
\<close>

definition toUint8Clamp :: "number \<Rightarrow> byte" where
  "toUint8Clamp x = (if x \<le> 0 then 0 else if 255 \<le> x then 255 else word_of_int (round_even x))"

section \<open>Helpers of app.js\<close>

text \<open>
  \<^verbatim>\<open>parseInt(s, 16)\<close> on the digits after the \<^verbatim>\<open>#\<close>: the value of the longest prefix of
  hexadecimal digits, \<open>None\<close> (NaN) when there is none. The value of a colour input is always
  \<^verbatim>\<open>#\<close> and six hexadecimal digits, so white space, signs and a \<^verbatim>\<open>0x\<close> prefix are left out.
\<close>

definition hexDigit :: "char \<Rightarrow> nat option" where
  "hexDigit c =
    (let k = of_char c :: nat in
     if 48 \<le> k \<and> k \<le> 57 then Some (k - 48)
     else if 97 \<le> k \<and> k \<le> 102 then Some (k - 87)
     else if 65 \<le> k \<and> k \<le> 70 then Some (k - 55)
     else None)"

fun parseDigits :: "nat \<Rightarrow> string \<Rightarrow> nat" where
  "parseDigits acc [] = acc"
| "parseDigits acc (c # cs) =
    (case hexDigit c of None \<Rightarrow> acc | Some d \<Rightarrow> parseDigits (16 * acc + d) cs)"

definition parseInt16 :: "string \<Rightarrow> nat option" where
  "parseInt16 s =
    (case s of [] \<Rightarrow> None
     | c # cs \<Rightarrow> (case hexDigit c of None \<Rightarrow> None | Some d \<Rightarrow> Some (parseDigits d cs)))"

text \<open>
  \<^verbatim>\<open>hex.slice(1)\<close> drops the first character. The shifts work on the 32-bit integer of the
  parsed number (0 for NaN); of the shifted word only the low eight bits are kept, where the
  signed and the unsigned shift agree.
\<close>

definition hexToRgb :: "string \<Rightarrow> byte \<times> byte \<times> byte" where
  "hexToRgb hex =
    (let bigint = (case parseInt16 (drop 1 hex) of None \<Rightarrow> 0 | Some n \<Rightarrow> word_of_nat n) :: 32 word
     in (ucast (drop_bit 16 bigint AND 255), ucast (drop_bit 8 bigint AND 255), ucast (bigint AND 255)))"

definition lerp :: "number \<Rightarrow> number \<Rightarrow> number \<Rightarrow> number" where
  "lerp start end t = js_add (js_mul start (js_sub 1 t)) (js_mul end t)"

text \<open>
  \<^verbatim>\<open>rgbToHsl\<close>. \<^verbatim>\<open>2 - max - min\<close> is \<^verbatim>\<open>(2 - max) - min\<close>; the \<^verbatim>\<open>switch (max)\<close> takes
  the first of the cases r, g, b that is equal to \<^verbatim>\<open>max\<close>, and \<^verbatim>\<open>max\<close> is one of the three.
\<close>

definition rgbToHsl :: "number \<Rightarrow> number \<Rightarrow> number \<Rightarrow> number \<times> number \<times> number" where
  "rgbToHsl r0 g0 b0 =
    (let r = js_div r0 255; g = js_div g0 255; b = js_div b0 255;
         mx = max r (max g b); mn = min r (min g b);
         l = js_div (js_add mx mn) 2
     in if mx = mn then (0, 0, l)
        else
          let d = js_sub mx mn;
              s = (if 1 / 2 < l then js_div d (js_sub (js_sub 2 mx) mn) else js_div d (js_add mx mn));
              h = (if mx = r then js_add (js_div (js_sub g b) d) (if g < b then 6 else 0)
                   else if mx = g then js_add (js_div (js_sub b r) d) 2
                   else js_add (js_div (js_sub r g) d) 4)
          in (js_div h 6, s, l))"

text \<open>
  The helper \<^verbatim>\<open>hue2rgb\<close> of \<^verbatim>\<open>hslToRgb\<close>. \<^verbatim>\<open>p + (q - p) * 6 * t\<close> multiplies from the left,
  and so does \<^verbatim>\<open>p + (q - p) * (2/3 - t) * 6\<close>.
\<close>

definition hue2rgb :: "number \<Rightarrow> number \<Rightarrow> number \<Rightarrow> number" where
  "hue2rgb p q t0 =
    (let t1 = (if t0 < 0 then js_add t0 1 else t0);
         t = (if 1 < t1 then js_sub t1 1 else t1)
     in if t < js_div 1 6 then js_add p (js_mul (js_mul (js_sub q p) 6) t)
        else if t < 1 / 2 then q
        else if t < js_div 2 3 then js_add p (js_mul (js_mul (js_sub q p) (js_sub (js_div 2 3) t)) 6)
        else p)"

definition hslToRgb :: "number \<Rightarrow> number \<Rightarrow> number \<Rightarrow> number \<times> number \<times> number" where
  "hslToRgb h s l =
    (let (r, g, b) =
       (if s = 0 then (l, l, l)
        else
          let q = (if l < 1 / 2 then js_mul l (js_add 1 s) else js_sub (js_add l s) (js_mul l s));
              p = js_sub (js_mul 2 l) q
          in (hue2rgb p q (js_add h (js_div 1 3)), hue2rgb p q h, hue2rgb p q (js_sub h (js_div 1 3))))
     in (math_round (js_mul r 255), math_round (js_mul g 255), math_round (js_mul b 255)))"

section \<open>The recolouring loop\<close>

text \<open>
  The body of the \<^verbatim>\<open>for\<close> loop of \<^verbatim>\<open>applyColor\<close> for one pixel \<open>px\<close> of \<^verbatim>\<open>data\<close> and
  the alpha byte of the same pixel of \<^verbatim>\<open>maskData\<close>. Only \<^verbatim>\<open>data[i]\<close>, \<^verbatim>\<open>data[i + 1]\<close>
  and \<^verbatim>\<open>data[i + 2]\<close> are assigned.
\<close>

definition paintPixel :: "number \<Rightarrow> number \<Rightarrow> pixel \<Rightarrow> byte \<Rightarrow> pixel" where
  "paintPixel hT sT px maskAlpha =
    (if 0 < maskAlpha then
       (let r = byte_num (red px); g = byte_num (green px); b = byte_num (blue px);
            (h, s, l) = rgbToHsl r g b;
            alphaFactor = js_div (byte_num maskAlpha) 255;
            (newR, newG, newB) = hslToRgb hT sT l
        in px\<lparr>red := toUint8Clamp (lerp r newR alphaFactor),
               green := toUint8Clamp (lerp g newG alphaFactor),
               blue := toUint8Clamp (lerp b newB alphaFactor)\<rparr>)
     else px)"

text \<open>
  The loop runs over all of \<^verbatim>\<open>data\<close>. Past the end of \<^verbatim>\<open>maskData\<close> the read gives
  \<^verbatim>\<open>undefined\<close>, \<^verbatim>\<open>undefined > 0\<close> is false and the pixel is left as it is.
\<close>

fun paintLoop :: "number \<Rightarrow> number \<Rightarrow> pixel list \<Rightarrow> pixel list \<Rightarrow> pixel list" where
  "paintLoop hT sT [] maskData = []"
| "paintLoop hT sT (px # data) [] = px # paintLoop hT sT data []"
| "paintLoop hT sT (px # data) (m # maskData) =
     paintPixel hT sT px (alpha m) # paintLoop hT sT data maskData"

section \<open>Session state and the browser\<close>

record image =
  img_width :: nat
  img_height :: nat
  bitmap :: "pixel list"

text \<open>
  A canvas is its width, its height and the pixels that \<^verbatim>\<open>getImageData\<close> reads from it, row
  by row. A canvas that is created, or whose width or height is assigned, is transparent
  black.
\<close>

record canvas =
  cwidth :: nat
  cheight :: nat
  cpixels :: "pixel list"

definition transparent :: pixel where
  "transparent = \<lparr>red = 0, green = 0, blue = 0, alpha = 0\<rparr>"

definition blankCanvas :: "nat \<Rightarrow> nat \<Rightarrow> canvas" where
  "blankCanvas w h = \<lparr>cwidth = w, cheight = h, cpixels = replicate (w * h) transparent\<rparr>"

text \<open>
  The 2D context draws with the composite operation \<^verbatim>\<open>source-over\<close>, which \<^verbatim>\<open>app.js\<close>
  never changes: a drawn pixel \<open>src\<close> is laid over the pixel \<open>dst\<close> that the canvas holds. With
  the alpha bytes \<open>as\<close> and \<open>ad\<close> as fractions of 255, the new alpha is \<open>as + ad * (1 - as)\<close> and
  each colour the average of the two colours with the weights \<open>as\<close> and \<open>ad * (1 - as)\<close>,
  rounded to the nearest byte. An opaque pixel replaces what is there, a transparent one
  leaves it (\<open>sourceOver_opaque\<close>, \<open>sourceOver_clear\<close>); in between, browsers differ in the
  last bit of the rounding.
\<close>

definition nearest :: "nat \<Rightarrow> nat \<Rightarrow> nat" where
  "nearest n d = (2 * n + d) div (2 * d)"

definition sourceOver :: "pixel \<Rightarrow> pixel \<Rightarrow> pixel" where
  "sourceOver src dst =
    (let ws = 255 * unat (alpha src);
         wd = unat (alpha dst) * (255 - unat (alpha src));
         mix = (\<lambda>cs cd. of_nat (nearest (ws * unat cs + wd * unat cd) (ws + wd)))
     in if ws + wd = 0 then transparent
        else \<lparr>red = mix (red src) (red dst), green = mix (green src) (green dst),
              blue = mix (blue src) (blue dst), alpha = of_nat (nearest (ws + wd) 255)\<rparr>)"

text \<open>
  Drawing lays the pixels of the drawn picture over the pixels of the canvas, one by one; the
  canvas keeps its size.
\<close>

fun composite :: "pixel list \<Rightarrow> pixel list \<Rightarrow> pixel list" where
  "composite src [] = []"
| "composite [] (d # dst) = d # dst"
| "composite (p # src) (d # dst) = sourceOver p d # composite src dst"

text \<open>
  What the program takes from the browser: \<open>render img w h cw ch\<close> are the pixels with which
  \<^verbatim>\<open>drawImage(img, 0, 0, w, h)\<close> covers a canvas of \<open>cw\<close> by \<open>ch\<close> pixels (the picture scaled
  to \<open>w\<close> by \<open>h\<close>, transparent where it does not reach), \<open>renderBlur\<close> the same under the
  filter \<^verbatim>\<open>blur(2px)\<close>, and \<open>sizeErrorMessage\<close> the message of the \<^verbatim>\<open>IndexSizeError\<close> that
  \<^verbatim>\<open>getImageData\<close> throws.
\<close>

record browser =
  render :: "image \<Rightarrow> number \<Rightarrow> number \<Rightarrow> nat \<Rightarrow> nat \<Rightarrow> pixel list"
  renderBlur :: "image \<Rightarrow> number \<Rightarrow> number \<Rightarrow> nat \<Rightarrow> nat \<Rightarrow> pixel list"
  sizeErrorMessage :: string

text \<open>The second argument of \<^verbatim>\<open>setStatus\<close>: \<^verbatim>\<open>'normal'\<close>, \<^verbatim>\<open>'error'\<close> or \<^verbatim>\<open>'success'\<close>.\<close>

datatype status_type = StatusNormal | StatusError | StatusSuccess

type_synonym upload = "byte list"

text \<open>The module-level variables of \<^verbatim>\<open>app.js\<close> and the properties of the page it uses.\<close>

record session =
  originalImage :: "image option"
  maskCanvas :: "canvas option"
  currentFile :: "upload option"
  mainCanvas :: canvas
  colorPicker :: string
  modeToggle :: bool
  btnMask_disabled :: bool
  btnApply_disabled :: bool
  statusMessage :: "string \<times> status_type"
  loadingHidden :: bool
  placeholderHidden :: bool

definition setStatus :: "string \<Rightarrow> status_type \<Rightarrow> session \<Rightarrow> session" where
  "setStatus msg type s = s\<lparr>statusMessage := (msg, type)\<rparr>"

definition setLoading :: "bool \<Rightarrow> session \<Rightarrow> session" where
  "setLoading isLoading s = s\<lparr>loadingHidden := (if isLoading then False else True)\<rparr>"

definition drawImage :: "browser \<Rightarrow> image \<Rightarrow> number \<Rightarrow> number \<Rightarrow> canvas \<Rightarrow> canvas" where
  "drawImage B img w h c =
    c\<lparr>cpixels := composite (render B img w h (cwidth c) (cheight c)) (cpixels c)\<rparr>"

text \<open>\<^verbatim>\<open>drawImage\<close> on a context whose \<^verbatim>\<open>filter\<close> is \<^verbatim>\<open>blur(2px)\<close>.\<close>

definition drawImage_blur :: "browser \<Rightarrow> image \<Rightarrow> number \<Rightarrow> number \<Rightarrow> canvas \<Rightarrow> canvas" where
  "drawImage_blur B img w h c =
    c\<lparr>cpixels := composite (renderBlur B img w h (cwidth c) (cheight c)) (cpixels c)\<rparr>"

definition MAX_WIDTH :: nat where
  "MAX_WIDTH = 2048"

text \<open>
  The \<^verbatim>\<open>onload\<close> handler of the uploaded image. Assigning \<^verbatim>\<open>mainCanvas.width\<close> and
  \<^verbatim>\<open>mainCanvas.height\<close> truncates the number to an integer and clears the canvas; the picture
  is then drawn with the untruncated height.
\<close>

definition img_onload :: "browser \<Rightarrow> image \<Rightarrow> session \<Rightarrow> session" where
  "img_onload B img s =
    (let s1 = s\<lparr>originalImage := Some img, maskCanvas := None,
                  btnMask_disabled := False, btnApply_disabled := True,
                  placeholderHidden := True\<rparr>;
         width = (if MAX_WIDTH < img_width img then MAX_WIDTH else img_width img);
         height = (if MAX_WIDTH < img_width img
                   then (let scale = js_div (of_nat MAX_WIDTH) (of_nat (img_width img))
                         in js_mul (of_nat (img_height img)) scale)
                   else of_nat (img_height img));
         c = blankCanvas width (nat \<lfloor>height\<rfloor>);
         s2 = s1\<lparr>mainCanvas := drawImage B img (of_nat width) height c\<rparr>
     in setStatus ''Image loaded. Click 'Mask House' to detect areas.'' StatusNormal s2)"

text \<open>
  \<^verbatim>\<open>handleImageUpload\<close>: \<open>file\<close> is \<^verbatim>\<open>e.target.files[0]\<close> and \<open>decoded\<close> the image the
  browser decodes from it; when the file is no image, or as long as the image has not
  loaded, \<^verbatim>\<open>onload\<close> has not run.
\<close>

definition handleImageUpload :: "browser \<Rightarrow> upload option \<Rightarrow> image option \<Rightarrow> session \<Rightarrow> session" where
  "handleImageUpload B file decoded s =
    (case file of
       None \<Rightarrow> s
     | Some f \<Rightarrow>
         (let s1 = s\<lparr>currentFile := Some f\<rparr>
          in case decoded of None \<Rightarrow> s1 | Some img \<Rightarrow> img_onload B img s1))"

text \<open>
  A value that is thrown, or with which a promise is rejected, is used only through its
  \<^verbatim>\<open>message\<close>: \<open>Error m\<close> is \<^verbatim>\<open>new Error(m)\<close>, \<open>ErrorEvent\<close> the event that
  \<^verbatim>\<open>img.onerror\<close> passes to \<^verbatim>\<open>reject\<close>, which has no message, and \<open>IndexSizeError m\<close> the
  exception of \<^verbatim>\<open>getImageData\<close>. A statement that throws has the result \<open>Inl (err, s)\<close>, with
  the session \<open>s\<close> as the statements before it have left it.
\<close>

datatype thrown = Error string | ErrorEvent | IndexSizeError string

fun message :: "thrown \<Rightarrow> string" where
  "message (Error m) = m"
| "message ErrorEvent = ''undefined''"
| "message (IndexSizeError m) = m"

text \<open>
  \<^verbatim>\<open>getImageData(0, 0, sw, sh)\<close> throws when \<open>sw\<close> or \<open>sh\<close> is 0, and reads \<open>sw * sh\<close> pixels
  otherwise, transparent black outside the canvas. \<^verbatim>\<open>applyColor\<close> asks both canvases for the
  size of the main canvas. The mask canvas is created with the size of the main canvas, and
  that size changes only in \<^verbatim>\<open>img.onload\<close>, where the mask is dropped, so both calls read a
  whole canvas (\<open>run_wellformed\<close>, \<open>getImageData_whole\<close>). \<^verbatim>\<open>putImageData(imgData, 0, 0)\<close>
  stores the pixels as they are, without compositing.
\<close>

definition getImageData :: "browser \<Rightarrow> canvas \<Rightarrow> nat \<Rightarrow> nat \<Rightarrow> thrown + pixel list" where
  "getImageData B c sw sh =
    (if sw = 0 \<or> sh = 0 then Inl (IndexSizeError (sizeErrorMessage B))
     else Inr (take (sw * sh) (cpixels c) @ replicate (sw * sh - length (cpixels c)) transparent))"

definition putImageData :: "pixel list \<Rightarrow> canvas \<Rightarrow> canvas" where
  "putImageData data c = c\<lparr>cpixels := data\<rparr>"

text \<open>
  \<^verbatim>\<open>applyColor\<close>. It returns at its guard, or throws in \<^verbatim>\<open>getImageData\<close> after it has set the
  status and drawn the picture, or paints and returns.
\<close>

definition applyColor :: "browser \<Rightarrow> session \<Rightarrow> thrown \<times> session + session" where
  "applyColor B s =
    (case (originalImage s, maskCanvas s) of
       (Some img, Some mcanvas) \<Rightarrow>
         (let s1 = setStatus ''Applying color...'' StatusNormal s;
              hex = colorPicker s1;
              (rT, gT, bT) = hexToRgb hex;
              (hT, sT, lT) = rgbToHsl (byte_num rT) (byte_num gT) (byte_num bT);
              width = cwidth (mainCanvas s1);
              height = cheight (mainCanvas s1);
              s2 = s1\<lparr>mainCanvas := drawImage B img (of_nat width) (of_nat height) (mainCanvas s1)\<rparr>
          in case getImageData B (mainCanvas s2) width height of
               Inl err \<Rightarrow> Inl (err, s2)
             | Inr data \<Rightarrow>
                 (case getImageData B mcanvas width height of
                    Inl err \<Rightarrow> Inl (err, s2)
                  | Inr maskData \<Rightarrow>
                      (let s3 = s2\<lparr>mainCanvas :=
                                     putImageData (paintLoop hT sT data maskData) (mainCanvas s2)\<rparr>
                       in Inr (setStatus ''Color applied.'' StatusSuccess s3))))
     | _ \<Rightarrow> Inr s)"

text \<open>
  The answer of the segmentation service. \<open>json\<close> is the outcome of
  \<^verbatim>\<open>response.json()\<close>: a rejection, or the parsed object as a map from property names to
  values (a body that parses to \<^verbatim>\<open>null\<close> makes the property access throw and counts as a
  rejection; any other body without properties is the empty map).
\<close>

datatype js_value = Null | Boolean bool | Number real | String string | Object

fun truthy :: "js_value option \<Rightarrow> bool" where
  "truthy None = False"
| "truthy (Some Null) = False"
| "truthy (Some (Boolean b)) = b"
| "truthy (Some (Number x)) = (if x = 0 then False else True)"
| "truthy (Some (String str)) = (case str of [] \<Rightarrow> False | _ \<Rightarrow> True)"
| "truthy (Some Object) = True"

record response =
  ok :: bool
  statusText :: string
  json :: "thrown + (string \<Rightarrow> js_value option)"

record formData =
  fd_image :: upload
  fd_scene :: string
  fd_mode :: string

text \<open>
  The network and the image decoder as \<^verbatim>\<open>handleMasking\<close> meets them: \<open>fetch\<close> answers
  the posted form or rejects, \<open>decodeMask v\<close> is the image that loads from the data URL
  \<^verbatim>\<open>"data:image/png;base64," + v\<close>, \<open>None\<close> when \<^verbatim>\<open>onerror\<close> fires.
\<close>

record network =
  fetch :: "formData \<Rightarrow> thrown + response"
  decodeMask :: "js_value \<Rightarrow> image option"

text \<open>
  \<^verbatim>\<open>loadMask\<close>, from the moment the mask image has loaded or failed to: the mask canvas is
  created with the size that the main canvas has then.
\<close>

definition loadMask :: "browser \<Rightarrow> network \<Rightarrow> js_value \<Rightarrow> session \<Rightarrow> thrown \<times> session + session" where
  "loadMask B N base64 s =
    (case decodeMask N base64 of
       None \<Rightarrow> Inl (ErrorEvent, s)
     | Some img \<Rightarrow>
         (let w = cwidth (mainCanvas s); h = cheight (mainCanvas s);
              m = drawImage_blur B img (of_nat w) (of_nat h) (blankCanvas w h)
          in Inr (s\<lparr>maskCanvas := Some m\<rparr>)))"

text \<open>
  The \<^verbatim>\<open>try\<close> block of \<^verbatim>\<open>handleMasking\<close>, when no other handler runs while it waits. Up
  to \<^verbatim>\<open>loadMask\<close> every \<^verbatim>\<open>throw\<close> and every rejection comes before the first assignment to
  the session; an exception of \<^verbatim>\<open>applyColor\<close> comes after the mask is stored and the Apply
  button enabled.
\<close>

definition maskForm :: "upload \<Rightarrow> session \<Rightarrow> formData" where
  "maskForm file s =
    \<lparr>fd_image = file,
     fd_scene = (if modeToggle s then ''interior'' else ''exterior''),
     fd_mode = ''auto''\<rparr>"

definition handleMasking_try :: "browser \<Rightarrow> network \<Rightarrow> upload \<Rightarrow> session \<Rightarrow> thrown \<times> session + session" where
  "handleMasking_try B N file s =
    (let form = maskForm file s
     in case fetch N form of
          Inl err \<Rightarrow> Inl (err, s)
        | Inr resp \<Rightarrow>
            if ok resp then
              (case json resp of
                 Inl err \<Rightarrow> Inl (err, s)
               | Inr data \<Rightarrow>
                   if truthy (data ''maskPngBase64'') then
                     (case loadMask B N (the (data ''maskPngBase64'')) s of
                        Inl failure \<Rightarrow> Inl failure
                      | Inr s1 \<Rightarrow>
                          (let s2 = setStatus ''Mask generated successfully!'' StatusSuccess s1;
                               s3 = s2\<lparr>btnApply_disabled := False\<rparr>
                           in applyColor B s3))
                   else Inl (Error ''Invalid response: No mask data received'', s))
            else Inl (Error (''API Error: '' @ statusText resp), s))"

text \<open>
  \<^verbatim>\<open>handleMasking\<close> with its \<^verbatim>\<open>catch\<close> and \<^verbatim>\<open>finally\<close>; \<open>handleMasking_begin\<close> are the
  two statements before the \<^verbatim>\<open>try\<close>, \<open>handleMasking_catch\<close> the \<^verbatim>\<open>catch\<close> block followed
  by the \<^verbatim>\<open>finally\<close> block.
\<close>

definition handleMasking_begin :: "session \<Rightarrow> session" where
  "handleMasking_begin s = setStatus ''Uploading and masking...'' StatusNormal (setLoading True s)"

definition handleMasking_catch :: "thrown \<Rightarrow> session \<Rightarrow> session" where
  "handleMasking_catch err s =
    setLoading False (setStatus (''Error generating mask: '' @ message err) StatusError s)"

definition handleMasking :: "browser \<Rightarrow> network \<Rightarrow> session \<Rightarrow> session" where
  "handleMasking B N s =
    (case currentFile s of
       None \<Rightarrow> s
     | Some file \<Rightarrow>
         (let s1 = handleMasking_begin s
          in case handleMasking_try B N file s1 of
               Inr s2 \<Rightarrow> setLoading False s2
             | Inl (err, s2) \<Rightarrow> handleMasking_catch err s2))"

section \<open>Handlers that wait\<close>

text \<open>
  \<^verbatim>\<open>handleMasking\<close> is an \<^verbatim>\<open>async\<close> function. It waits three times: for \<^verbatim>\<open>fetch\<close>, for
  \<^verbatim>\<open>response.json()\<close> and for the mask image that \<^verbatim>\<open>loadMask\<close> loads, and while it waits
  the page handles other events. A call that waits is the network that will answer it and the
  place where it waits, with the value the rest of the call needs.
\<close>

datatype stage = AwaitFetch formData | AwaitJson response | AwaitMask js_value

type_synonym call = "network \<times> stage"

text \<open>
  \<open>resume\<close> runs a waiting call from the moment its promise settles to the next \<^verbatim>\<open>await\<close>
  (then it gives the new stage) or to the end of \<^verbatim>\<open>handleMasking\<close>. When the mask image has
  loaded, \<^verbatim>\<open>loadMask\<close> resolves and the rest of the \<^verbatim>\<open>try\<close> block follows before any other
  event.
\<close>

fun resume :: "browser \<Rightarrow> network \<Rightarrow> stage \<Rightarrow> session \<Rightarrow> session \<times> stage option" where
  "resume B N (AwaitFetch form) s =
     (case fetch N form of
        Inl err \<Rightarrow> (handleMasking_catch err s, None)
      | Inr resp \<Rightarrow>
          if ok resp then (s, Some (AwaitJson resp))
          else (handleMasking_catch (Error (''API Error: '' @ statusText resp)) s, None))"
| "resume B N (AwaitJson resp) s =
     (case json resp of
        Inl err \<Rightarrow> (handleMasking_catch err s, None)
      | Inr data \<Rightarrow>
          if truthy (data ''maskPngBase64'') then (s, Some (AwaitMask (the (data ''maskPngBase64''))))
          else (handleMasking_catch (Error ''Invalid response: No mask data received'') s, None))"
| "resume B N (AwaitMask base64) s =
     (case loadMask B N base64 s of
        Inl (err, s1) \<Rightarrow> (handleMasking_catch err s1, None)
      | Inr s1 \<Rightarrow>
          (let s2 = setStatus ''Mask generated successfully!'' StatusSuccess s1;
               s3 = s2\<lparr>btnApply_disabled := False\<rparr>
           in case applyColor B s3 of
                Inl (err, s4) \<Rightarrow> (handleMasking_catch err s4, None)
              | Inr s4 \<Rightarrow> (setLoading False s4, None)))"

text \<open>
  The page: the session and the calls of \<^verbatim>\<open>handleMasking\<close> that wait, oldest first. Nothing
  in \<^verbatim>\<open>app.js\<close> disables the Mask button or cancels a request while a call waits.

  The events: a file is chosen in the file input (\<^verbatim>\<open>handleImageUpload\<close> up to
  \<^verbatim>\<open>readAsDataURL\<close>), the image of a chosen file has loaded (\<^verbatim>\<open>img.onload\<close>), the Mask button
  is clicked (\<^verbatim>\<open>handleMasking\<close> up to \<^verbatim>\<open>await fetch\<close>), the promise of the \<open>k\<close>-th waiting
  call settles, the Apply button is clicked, a colour is picked in the colour input, the
  mode toggle is switched (its listener only writes to the console). A disabled button
  dispatches no click, and an exception that leaves a click handler is reported and changes
  nothing further.
\<close>

type_synonym page = "session \<times> call list"

datatype event =
  FileChosen "upload option" | ImageLoads image | MaskClick network | Settles nat | ApplyClick
  | PickColor string | ToggleMode bool

fun step :: "browser \<Rightarrow> event \<Rightarrow> page \<Rightarrow> page" where
  "step B (FileChosen file) (s, calls) = (handleImageUpload B file None s, calls)"
| "step B (ImageLoads img) (s, calls) = (img_onload B img s, calls)"
| "step B (MaskClick N) (s, calls) =
     (if btnMask_disabled s then (s, calls)
      else case currentFile s of
             None \<Rightarrow> (s, calls)
           | Some file \<Rightarrow>
               (let s1 = handleMasking_begin s
                in (s1, calls @ [(N, AwaitFetch (maskForm file s1))])))"
| "step B (Settles k) (s, calls) =
     (if k < length calls then
        (case resume B (fst (calls ! k)) (snd (calls ! k)) s of
           (t, None) \<Rightarrow> (t, take k calls @ drop (Suc k) calls)
         | (t, Some st) \<Rightarrow> (t, calls[k := (fst (calls ! k), st)]))
      else (s, calls))"
| "step B ApplyClick (s, calls) =
     (if btnApply_disabled s then (s, calls)
      else case applyColor B s of Inr t \<Rightarrow> (t, calls) | Inl (err, t) \<Rightarrow> (t, calls))"
| "step B (PickColor hex) (s, calls) = (s\<lparr>colorPicker := hex\<rparr>, calls)"
| "step B (ToggleMode checked) (s, calls) = (s\<lparr>modeToggle := checked\<rparr>, calls)"

fun run :: "browser \<Rightarrow> event list \<Rightarrow> page \<Rightarrow> page" where
  "run B [] p = p"
| "run B (ev # evs) p = run B evs (step B ev p)"

section \<open>The session as a state machine\<close>

text \<open>
  The states of the specification, read off the two variables that the guard of
  \<^verbatim>\<open>applyColor\<close> tests: \<open>Masked\<close> when both an image and a mask are there, \<open>ImageLoaded\<close>
  when there is an image and no mask, \<open>Empty\<close> when there is no image.
\<close>

datatype state = Empty | ImageLoaded | Masked

definition spec_state :: "session \<Rightarrow> state" where
  "spec_state s =
    (case originalImage s of
       None \<Rightarrow> Empty
     | Some img \<Rightarrow> (case maskCanvas s of None \<Rightarrow> ImageLoaded | Some m \<Rightarrow> Masked))"

text \<open>
  The buffer that \<^verbatim>\<open>applyColor\<close> reads with \<^verbatim>\<open>getImageData\<close> after it has drawn the
  original picture again: the source buffer of the recolouring (empty when the call throws).
\<close>

definition sourceData :: "browser \<Rightarrow> image \<Rightarrow> session \<Rightarrow> pixel list" where
  "sourceData B img s =
    (let width = cwidth (mainCanvas s); height = cheight (mainCanvas s)
     in case getImageData B (drawImage B img (of_nat width) (of_nat height) (mainCanvas s))
               width height of
          Inl err \<Rightarrow> []
        | Inr data \<Rightarrow> data)"

text \<open>
  A mask request delivers its mask when the call waits for the mask image and the image
  loads: then \<^verbatim>\<open>loadMask\<close> stores the mask. \<open>mask_requests\<close> are the requests that a list of
  events starts.
\<close>

fun mask_arrives :: "event \<Rightarrow> page \<Rightarrow> bool" where
  "mask_arrives (Settles k) (s, calls) =
     (if k < length calls then
        (case snd (calls ! k) of
           AwaitMask v \<Rightarrow> (case decodeMask (fst (calls ! k)) v of None \<Rightarrow> False | Some img \<Rightarrow> True)
         | AwaitFetch form \<Rightarrow> False
         | AwaitJson resp \<Rightarrow> False)
      else False)"
| "mask_arrives (FileChosen file) p = False"
| "mask_arrives (ImageLoads img) p = False"
| "mask_arrives (MaskClick N) p = False"
| "mask_arrives ApplyClick p = False"
| "mask_arrives (PickColor hex) p = False"
| "mask_arrives (ToggleMode checked) p = False"




text \<open>
  Every canvas that the handlers leave behind holds as many pixels as its size says, and a
  mask canvas has the size of the main canvas.
\<close>

definition wellformed_canvas :: "canvas \<Rightarrow> bool" where
  "wellformed_canvas c = (length (cpixels c) = cwidth c * cheight c)"

definition wellformed :: "session \<Rightarrow> bool" where
  "wellformed s =
    (wellformed_canvas (mainCanvas s) \<and>
     (case maskCanvas s of
        None \<Rightarrow> True
      | Some m \<Rightarrow> wellformed_canvas m \<and> cwidth m = cwidth (mainCanvas s)
          \<and> cheight m = cheight (mainCanvas s)))"

section \<open>Concrete sessions for evaluation\<close>

text \<open>
  A browser that draws the bitmap of an image as it is, a two-pixel grey picture, a mask that
  covers the first pixel and leaves the second, and sessions before and after the mask was
  loaded, with the colour input at pure red.
\<close>

definition grey :: pixel where
  "grey = \<lparr>red = 100, green = 100, blue = 100, alpha = 255\<rparr>"

definition example_browser :: browser where
  "example_browser =
    \<lparr>render = (\<lambda>img w h cw ch. bitmap img), renderBlur = (\<lambda>img w h cw ch. bitmap img),
     sizeErrorMessage = ''The source height is 0.''\<rparr>"

definition example_image :: image where
  "example_image = \<lparr>img_width = 2, img_height = 1, bitmap = [grey, grey]\<rparr>"

definition example_mask :: canvas where
  "example_mask =
    \<lparr>cwidth = 2, cheight = 1,
     cpixels = [\<lparr>red = 0, green = 0, blue = 0, alpha = 255\<rparr>,
                \<lparr>red = 0, green = 0, blue = 0, alpha = 0\<rparr>]\<rparr>"

definition empty_session :: session where
  "empty_session =
    \<lparr>originalImage = None, maskCanvas = None, currentFile = None,
     mainCanvas = blankCanvas 300 150,
     colorPicker = ''#FF0000'', modeToggle = False,
     btnMask_disabled = True, btnApply_disabled = True,
     statusMessage = ([], StatusNormal), loadingHidden = True, placeholderHidden = False\<rparr>"

definition loaded_session :: session where
  "loaded_session = handleImageUpload example_browser (Some []) (Some example_image) empty_session"

definition masked_session :: session where
  "masked_session = loaded_session\<lparr>maskCanvas := Some example_mask, btnApply_disabled := False\<rparr>"

text \<open>
  A service that answers with status 500, one whose answer lacks the mask, and one that
  answers with the mask above.
\<close>

definition failing_network :: network where
  "failing_network =
    \<lparr>fetch = (\<lambda>form. Inr \<lparr>ok = False, statusText = ''Internal Server Error'',
                             json = Inl (Error ''Unexpected end of JSON input'')\<rparr>),
     decodeMask = (\<lambda>v. None)\<rparr>"

definition incomplete_network :: network where
  "incomplete_network =
    \<lparr>fetch = (\<lambda>form. Inr \<lparr>ok = True, statusText = ''OK'', json = Inr (\<lambda>name. None)\<rparr>),
     decodeMask = (\<lambda>v. None)\<rparr>"




text \<open>
  A second picture, of a grey and a white pixel, which is loaded while a mask request for
  the first picture waits for its answer.
\<close>

definition white :: pixel where
  "white = \<lparr>red = 255, green = 255, blue = 255, alpha = 255\<rparr>"




text \<open>
  A picture whose two pixels are half transparent (a PNG with an alpha channel), loaded into
  a fresh page and masked like the grey picture.
\<close>

definition translucent :: pixel where
  "translucent = \<lparr>red = 100, green = 100, blue = 100, alpha = 128\<rparr>"

definition translucent_image :: image where
  "translucent_image = \<lparr>img_width = 2, img_height = 1, bitmap = [translucent, translucent]\<rparr>"

definition translucent_loaded :: session where
  "translucent_loaded =
    handleImageUpload example_browser (Some []) (Some translucent_image) empty_session"

definition translucent_session :: session where
  "translucent_session =
    translucent_loaded\<lparr>maskCanvas := Some example_mask, btnApply_disabled := False\<rparr>"

text \<open>A picture 4096 pixels wide and one pixel high, which is scaled to a canvas of height 0.\<close>

definition wide_image :: image where
  "wide_image = \<lparr>img_width = 4096, img_height = 1, bitmap = replicate 4096 grey\<rparr>"

section \<open>Quantities of the error analysis\<close>

text \<open>
  What follows is not code of \<^verbatim>\<open>app.js\<close> but the mathematics its conversions are measured
  against. Every operation on numbers below 256 in size is off by at most \<open>delta\<close>;
  \<open>near e x y\<close> says that \<open>x\<close> is within \<open>e\<close> of \<open>y\<close>.
\<close>

definition delta :: real where
  "delta = 1 / 2 ^ 45"

definition near :: "real \<Rightarrow> real \<Rightarrow> real \<Rightarrow> bool" where
  "near e x y \<longleftrightarrow> y - e \<le> x \<and> x \<le> y + e"

text \<open>
  The weight that \<^verbatim>\<open>hue2rgb\<close> gives to \<open>q\<close> over \<open>p\<close>, as a function of the real number
  \<open>t\<close>: a trapezium on \<open>[0, 2/3]\<close>, and its continuation with period 1.
\<close>

definition ramp :: "real \<Rightarrow> real" where
  "ramp t = max 0 (min 1 (min (6 * t) (4 - 6 * t)))"

definition ramp3 :: "real \<Rightarrow> real" where
  "ramp3 t = max (ramp t) (max (ramp (t - 1)) (ramp (t + 1)))"

text \<open>The four-way choice of \<^verbatim>\<open>hue2rgb\<close>, after the two adjustments of \<^verbatim>\<open>t\<close>.\<close>

definition hue_piece :: "number \<Rightarrow> number \<Rightarrow> number \<Rightarrow> number" where
  "hue_piece p q t =
    (if t < js_div 1 6 then js_add p (js_mul (js_mul (js_sub q p) 6) t)
     else if t < 1 / 2 then q
     else if t < js_div 2 3 then js_add p (js_mul (js_mul (js_sub q p) (js_sub (js_div 2 3) t)) 6)
     else p)"

text \<open>
  The exact lightness and saturation of a colour with largest channel \<open>M\<close> and smallest
  channel \<open>m\<close>, and the exact hue of the bytes \<open>R\<close>, \<open>G\<close>, \<open>B\<close>, in real arithmetic.
\<close>

definition light_exact :: "nat \<Rightarrow> nat \<Rightarrow> real" where
  "light_exact M m = (real M + real m) / 510"

definition sat_exact :: "nat \<Rightarrow> nat \<Rightarrow> real" where
  "sat_exact M m =
    (if 255 < M + m then (real M - real m) / (510 - real M - real m)
     else (real M - real m) / (real M + real m))"

definition hue_exact :: "nat \<Rightarrow> nat \<Rightarrow> nat \<Rightarrow> real" where
  "hue_exact R G B =
    (let M = max R (max G B); m = min R (min G B); D = real M - real m
     in (if M = R then (real G - real B) / D + (if G < B then 6 else 0)
         else if M = G then (real B - real R) / D + 2
         else (real R - real G) / D + 4) / 6)"

section \<open>Evaluation of the number model\<close>

lemma bitlen_numeral_simps:
  "bitlen 1 = 1"
  "bitlen (numeral (Num.Bit0 n)) = bitlen (numeral n) + 1"
  "bitlen (numeral (Num.Bit1 n)) = bitlen (numeral n) + 1"
  by (subst compute_bitlen, simp)+

lemmas fl_eval = fl_def expo_def pow2_def round_even_def bitlen_numeral_simps Let_def
  js_add_def js_sub_def js_mul_def js_div_def

lemmas eval_cong = let_weak_cong if_weak_cong prod.case_cong_weak

section \<open>Rounding errors of the colour conversion\<close>

subsection \<open>The binary exponent and the error of rounding\<close>

text \<open>
  \<open>expo x\<close> is the binary exponent of \<open>x\<close> (\<open>expo_lower\<close>, \<open>expo_upper\<close>), so that the spacing
  \<open>u\<close> used by \<open>fl\<close> is that of the binary64 numbers around \<open>x\<close>, at most \<open>2 ^ - 52\<close> times the size
  of \<open>x\<close>, and rounding moves \<open>x\<close> by at most \<open>u / 2\<close>.
\<close>

lemma pow2_powi: "pow2 e = 2 powi e"
  by (simp add: pow2_def power_int_def inverse_eq_divide power_one_over)

lemma pow2_pos: "0 < pow2 e"
  by (simp add: pow2_powi)

lemma pow2_mono: "a \<le> b \<Longrightarrow> pow2 a \<le> pow2 b"
  by (simp add: pow2_powi power_int_increasing)

lemma pow2_less_imp: "pow2 a < pow2 b \<Longrightarrow> a < b"
  using pow2_mono [of b a] by (cases "a < b") auto

lemma pow2_nat: "pow2 (int n) = 2 ^ n"
  by (simp add: pow2_def)

lemma expo_lower:
  assumes "x \<noteq> 0"
  shows "pow2 (expo x) \<le> \<bar>x\<bar>"
proof (cases "1 \<le> \<bar>x\<bar>")
  case True
  define n where "n = \<lfloor>\<bar>x\<bar>\<rfloor>"
  from True have n: "0 < n" by (simp add: n_def)
  from bitlen_bounds [OF n] have b: "2 ^ nat (bitlen n - 1) \<le> n" ..
  from n have "1 \<le> bitlen n" by (simp add: bitlen_alt_def)
  then have "pow2 (bitlen n - 1) = 2 ^ nat (bitlen n - 1)"
    by (simp add: pow2_def)
  also have "\<dots> = of_int (2 ^ nat (bitlen n - 1))" by simp
  also from b have "\<dots> \<le> of_int n" by (simp only: of_int_le_iff)
  also have "\<dots> \<le> \<bar>x\<bar>" by (simp add: n_def)
  finally show ?thesis using True by (simp add: expo_def n_def)
next
  case False
  define m where "m = \<lceil>1 / \<bar>x\<bar>\<rceil> - 1"
  from False assms have "1 < 1 / \<bar>x\<bar>" by simp
  then have "1 < \<lceil>1 / \<bar>x\<bar>\<rceil>" by (simp add: less_ceiling_iff)
  then have m: "0 < m" by (simp add: m_def)
  from bitlen_bounds [OF m] have b: "m < 2 ^ nat (bitlen m)" ..
  from m have k: "1 \<le> bitlen m" by (simp add: bitlen_alt_def)
  have "1 / \<bar>x\<bar> \<le> of_int (m + 1)" by (simp add: m_def)
  also from b have "m + 1 \<le> 2 ^ nat (bitlen m)" by simp
  then have "(of_int (m + 1) :: real) \<le> of_int (2 ^ nat (bitlen m))" by (simp only: of_int_le_iff)
  finally have "1 / \<bar>x\<bar> \<le> 2 ^ nat (bitlen m)" by simp
  with assms have "1 / 2 ^ nat (bitlen m) \<le> \<bar>x\<bar>"
    by (simp add: field_simps)
  moreover from k have "pow2 (- bitlen m) = 1 / 2 ^ nat (bitlen m)"
    by (simp add: pow2_def)
  ultimately show ?thesis using False by (simp add: expo_def m_def)
qed

lemma expo_upper:
  assumes "x \<noteq> 0"
  shows "\<bar>x\<bar> < pow2 (expo x + 1)"
proof (cases "1 \<le> \<bar>x\<bar>")
  case True
  define n where "n = \<lfloor>\<bar>x\<bar>\<rfloor>"
  from True have n: "0 < n" by (simp add: n_def)
  from bitlen_bounds [OF n] have b: "n < 2 ^ nat (bitlen n)" ..
  from n have k: "1 \<le> bitlen n" by (simp add: bitlen_alt_def)
  have "\<bar>x\<bar> < of_int (n + 1)" unfolding n_def by linarith
  also from b have "n + 1 \<le> 2 ^ nat (bitlen n)" by simp
  then have "(of_int (n + 1) :: real) \<le> of_int (2 ^ nat (bitlen n))" by (simp only: of_int_le_iff)
  also have "of_int (2 ^ nat (bitlen n)) = pow2 (bitlen n)" using k by (simp add: pow2_def)
  finally show ?thesis using True by (simp add: expo_def n_def)
next
  case False
  define m where "m = \<lceil>1 / \<bar>x\<bar>\<rceil> - 1"
  from False assms have "1 < 1 / \<bar>x\<bar>" by simp
  then have "1 < \<lceil>1 / \<bar>x\<bar>\<rceil>" by (simp add: less_ceiling_iff)
  then have m: "0 < m" by (simp add: m_def)
  from bitlen_bounds [OF m] have b: "2 ^ nat (bitlen m - 1) \<le> m" ..
  from m have k: "1 \<le> bitlen m" by (simp add: bitlen_alt_def)
  from b have "(of_int (2 ^ nat (bitlen m - 1)) :: real) \<le> of_int m" by (simp only: of_int_le_iff)
  also have "of_int m < 1 / \<bar>x\<bar>" unfolding m_def by linarith
  finally have "2 ^ nat (bitlen m - 1) < 1 / \<bar>x\<bar>" by simp
  with assms have "\<bar>x\<bar> < 1 / 2 ^ nat (bitlen m - 1)"
    by (simp add: field_simps)
  moreover have "pow2 (- bitlen m + 1) = 1 / 2 ^ nat (bitlen m - 1)"
  proof (cases "bitlen m = 1")
    case True
    then show ?thesis by (simp add: pow2_def)
  next
    case False
    with k have "\<not> 0 \<le> - bitlen m + 1" "- (- bitlen m + 1) = bitlen m - 1" by simp_all
    then show ?thesis by (simp add: pow2_def)
  qed
  ultimately show ?thesis using False by (simp add: expo_def m_def)
qed

lemma round_even_bounds:
  "y - 1 / 2 \<le> of_int (round_even y) \<and> of_int (round_even y) \<le> y + 1 / 2"
proof -
  define f where "f = \<lfloor>y\<rfloor>"
  have f: "of_int f \<le> y" "y < of_int f + 1" unfolding f_def by linarith+
  have "round_even y = (if y - of_int f < 1 / 2 then f else if 1 / 2 < y - of_int f then f + 1
      else if even f then f else f + 1)"
    by (simp add: round_even_def Let_def f_def)
  with f show ?thesis by (auto split: if_splits)
qed

lemma round_even_nonneg: "0 \<le> y \<Longrightarrow> 0 \<le> round_even y"
  by (auto simp: round_even_def Let_def)

lemma fl_error_general:
  assumes "x \<noteq> 0"
  shows "\<bar>fl x - x\<bar> \<le> pow2 (max (expo x) (- 1022) - 52) / 2"
proof -
  define u where "u = pow2 (max (expo x) (- 1022) - 52)"
  have u: "0 < u" by (simp add: u_def pow2_pos)
  from round_even_bounds [of "x / u"]
  have "\<bar>of_int (round_even (x / u)) - x / u\<bar> \<le> 1 / 2" by linarith
  then have "\<bar>of_int (round_even (x / u)) - x / u\<bar> * u \<le> 1 / 2 * u"
    using u by (simp only: mult_le_cancel_right_pos)
  moreover have "\<bar>of_int (round_even (x / u)) * u - x\<bar> = \<bar>of_int (round_even (x / u)) - x / u\<bar> * u"
  proof -
    have "of_int (round_even (x / u)) * u - x = (of_int (round_even (x / u)) - x / u) * u"
      using u by (simp add: left_diff_distrib)
    then have "\<bar>of_int (round_even (x / u)) * u - x\<bar> = \<bar>(of_int (round_even (x / u)) - x / u) * u\<bar>"
      by (rule arg_cong)
    also have "\<dots> = \<bar>of_int (round_even (x / u)) - x / u\<bar> * \<bar>u\<bar>"
      by (rule abs_mult)
    also have "\<bar>u\<bar> = u" using u by simp
    finally show ?thesis .
  qed
  ultimately show ?thesis using assms by (simp add: fl_def u_def Let_def)
qed

text \<open>All numbers of the colour conversion stay below 256, where the spacing of the
  binary64 values is at most \<open>2 ^ - 44\<close>.\<close>

lemma fl_error:
  assumes "\<bar>x\<bar> \<le> 256"
  shows "\<bar>fl x - x\<bar> \<le> 1 / 2 ^ 45"
proof (cases "x = 0")
  case True
  then show ?thesis by (simp add: fl_def)
next
  case False
  from expo_lower [OF False] assms have "pow2 (expo x) < pow2 9"
    by (simp add: pow2_def)
  then have "expo x < 9" by (rule pow2_less_imp)
  then have "max (expo x) (- 1022) - 52 \<le> - 44" by simp
  then have "pow2 (max (expo x) (- 1022) - 52) \<le> pow2 (- 44)" by (rule pow2_mono)
  with fl_error_general [OF False] show ?thesis by (simp add: pow2_def)
qed

lemma fl_nonneg: "0 \<le> x \<Longrightarrow> 0 \<le> fl x"
  by (simp add: fl_def Let_def round_even_nonneg pow2_pos less_imp_le)

subsection \<open>Approximations and how the operators keep them\<close>

lemma delta_pos: "0 < delta"
  by (simp add: delta_def)

lemma delta_small: "10000000 * delta \<le> 1 / 1000000"
  by (simp add: delta_def)

lemma near_weaken: "near e x y \<Longrightarrow> e \<le> e' \<Longrightarrow> near e' x y"
  by (simp add: near_def)

lemma near_fl:
  assumes "- 256 \<le> x" and "x \<le> 256"
  shows "near delta (fl x) x"
proof -
  from assms have "\<bar>x\<bar> \<le> 256" by linarith
  from fl_error [OF this] have "\<bar>fl x - x\<bar> \<le> delta" by (simp only: delta_def)
  then show ?thesis unfolding near_def by linarith
qed

lemma near_fl_trans:
  assumes "near e x y" and "- 255 \<le> y" and "y \<le> 255" and "e \<le> 1"
  shows "near (e + delta) (fl x) y"
proof -
  from assms have "- 256 \<le> x" "x \<le> 256" by (simp_all add: near_def)
  then have "near delta (fl x) x" by (rule near_fl)
  with assms(1) show ?thesis by (simp add: near_def)
qed

lemma near_js_add:
  assumes "near e1 a a'" and "near e2 b b'"
    and "- 255 \<le> a' + b'" and "a' + b' \<le> 255" and "e1 + e2 \<le> 1"
  shows "near (e1 + e2 + delta) (js_add a b) (a' + b')"
proof -
  from assms(1,2) have "near (e1 + e2) (a + b) (a' + b')" by (simp add: near_def)
  from near_fl_trans [OF this assms(3-5)] show ?thesis by (simp add: js_add_def)
qed

lemma near_js_sub:
  assumes "near e1 a a'" and "near e2 b b'"
    and "- 255 \<le> a' - b'" and "a' - b' \<le> 255" and "e1 + e2 \<le> 1"
  shows "near (e1 + e2 + delta) (js_sub a b) (a' - b')"
proof -
  from assms(1,2) have "near (e1 + e2) (a - b) (a' - b')" by (simp add: near_def)
  from near_fl_trans [OF this assms(3-5)] show ?thesis by (simp add: js_sub_def)
qed

lemma near_scale:
  assumes "near e a a'" and "0 \<le> c"
  shows "near (c * e) (a * c) (a' * c)"
proof -
  from assms have "(a' - e) * c \<le> a * c" "a * c \<le> (a' + e) * c"
    by (simp_all add: near_def mult_right_mono)
  then show ?thesis by (simp add: near_def algebra_simps)
qed

lemma near_js_mul_const:
  assumes "near e a a'" and "0 \<le> c"
    and "- 255 \<le> a' * c" and "a' * c \<le> 255" and "c * e \<le> 1"
  shows "near (c * e + delta) (js_mul a c) (a' * c)"
  using near_fl_trans [OF near_scale [OF assms(1,2)] assms(3-5)] by (simp add: js_mul_def)

lemma near_js_div_const:
  assumes "near e a a'" and "0 < c"
    and "- 255 \<le> a' / c" and "a' / c \<le> 255" and "e / c \<le> 1"
  shows "near (e / c + delta) (js_div a c) (a' / c)"
proof -
  from assms(2) have "0 \<le> 1 / c" by simp
  from near_scale [OF assms(1) this] have "near (e / c) (a / c) (a' / c)" by simp
  from near_fl_trans [OF this assms(3-5)] show ?thesis by (simp add: js_div_def)
qed

text \<open>A product of two approximated factors.\<close>

lemma near_mult:
  assumes "near e1 a a'" and "near e2 b b'"
    and "\<bar>a'\<bar> \<le> A" and "\<bar>b\<bar> \<le> B"
  shows "near (e1 * B + A * e2) (a * b) (a' * b')"
proof -
  from assms(1) have e1: "\<bar>a - a'\<bar> \<le> e1" by (simp add: near_def abs_le_iff)
  from assms(2) have e2: "\<bar>b - b'\<bar> \<le> e2" by (simp add: near_def abs_le_iff)
  have "a * b - a' * b' = (a - a') * b + a' * (b - b')" by (simp add: algebra_simps)
  then have "\<bar>a * b - a' * b'\<bar> \<le> \<bar>(a - a') * b\<bar> + \<bar>a' * (b - b')\<bar>"
    by (simp only: abs_triangle_ineq)
  also have "\<bar>(a - a') * b\<bar> \<le> e1 * B"
    unfolding abs_mult using e1 assms(4) by (rule mult_mono) (simp_all add: order_trans [OF abs_ge_zero e1])
  also have "\<bar>a' * (b - b')\<bar> \<le> A * e2"
    unfolding abs_mult using assms(3) e2 by (rule mult_mono) (simp_all add: order_trans [OF abs_ge_zero assms(3)])
  finally show ?thesis by (simp add: near_def abs_le_iff)
qed

text \<open>A quotient whose exact value is at most \<open>rho\<close> in size and whose divisor is at least \<open>c\<close>.\<close>

lemma near_divide:
  assumes "near e1 n n'" and "near e2 d d'"
    and "0 < c" and "c \<le> d" and "c \<le> d'" and "\<bar>n'\<bar> \<le> rho * d'"
  shows "near ((e1 + rho * e2) / c) (n / d) (n' / d')"
proof -
  from assms(1) have e1: "\<bar>n - n'\<bar> \<le> e1" by (simp add: near_def abs_le_iff)
  from assms(2) have e2: "\<bar>d' - d\<bar> \<le> e2" by (simp add: near_def abs_le_iff)
  from assms(3-5) have d: "0 < d" "0 < d'" by simp_all
  have rho: "0 \<le> rho"
  proof (rule ccontr)
    assume "\<not> 0 \<le> rho"
    then have "rho * d' < 0" using d by (simp add: mult_less_0_iff)
    with assms(6) show False by simp
  qed
  have "n / d - n' / d' = (n - n') / d + (n' / d') * ((d' - d) / d)"
    using d by (simp add: field_simps)
  then have "\<bar>n / d - n' / d'\<bar> \<le> \<bar>(n - n') / d\<bar> + \<bar>(n' / d') * ((d' - d) / d)\<bar>"
    by (simp only: abs_triangle_ineq)
  also have "\<bar>(n - n') / d\<bar> \<le> e1 / c"
  proof -
    have "\<bar>(n - n') / d\<bar> = \<bar>n - n'\<bar> / d" using d by simp
    also have "\<dots> \<le> e1 / d" using e1 d by (simp add: divide_right_mono)
    also have "\<dots> \<le> e1 / c"
      using assms(3,4) order_trans [OF abs_ge_zero e1] by (simp add: divide_left_mono)
    finally show ?thesis .
  qed
  also have "\<bar>(n' / d') * ((d' - d) / d)\<bar> \<le> rho * (e2 / c)"
  proof -
    have a: "\<bar>n' / d'\<bar> \<le> rho" using assms(6) d by (simp add: field_simps)
    have "\<bar>(d' - d) / d\<bar> = \<bar>d' - d\<bar> / d" using d by simp
    also have "\<dots> \<le> e2 / d" using e2 d by (simp add: divide_right_mono)
    also have "\<dots> \<le> e2 / c"
      using assms(3,4) order_trans [OF abs_ge_zero e2] by (simp add: divide_left_mono)
    finally have b: "\<bar>(d' - d) / d\<bar> \<le> e2 / c" .
    show ?thesis unfolding abs_mult using a b by (rule mult_mono) (simp_all add: rho)
  qed
  finally have "\<bar>n / d - n' / d'\<bar> \<le> (e1 + rho * e2) / c"
    by (simp add: add_divide_distrib)
  then show ?thesis by (simp add: near_def abs_le_iff)
qed

subsection \<open>The weight of hue2rgb\<close>

lemma hue2rgb_pieces:
  "hue2rgb p q t0 =
     hue_piece p q (if t0 < 0 then (if 1 < js_add t0 1 then js_sub (js_add t0 1) 1 else js_add t0 1)
                    else if 1 < t0 then js_sub t0 1 else t0)"
  by (simp add: hue2rgb_def hue_piece_def Let_def)

lemma ramp_bounds: "0 \<le> ramp t" "ramp t \<le> 1"
  by (simp_all add: ramp_def)

lemma ramp3_bounds: "0 \<le> ramp3 t" "ramp3 t \<le> 1"
  using ramp_bounds [of t] ramp_bounds [of "t - 1"] ramp_bounds [of "t + 1"]
  by (simp_all add: ramp3_def)

lemma near_max: "near e a b \<Longrightarrow> near e c d \<Longrightarrow> near e (max a c) (max b d)"
  by (auto simp: near_def max_def)

lemma near_min: "near e a b \<Longrightarrow> near e c d \<Longrightarrow> near e (min a c) (min b d)"
  by (auto simp: near_def min_def)

lemma near_ramp:
  assumes "near e a b"
  shows "near (6 * e) (ramp a) (ramp b)"
proof -
  from assms have e: "0 \<le> e" by (simp add: near_def)
  from assms have "near (6 * e) (6 * a) (6 * b)" "near (6 * e) (4 - 6 * a) (4 - 6 * b)"
    by (simp_all add: near_def)
  then have m: "near (6 * e) (min (6 * a) (4 - 6 * a)) (min (6 * b) (4 - 6 * b))"
    by (rule near_min)
  from e have c: "near (6 * e) 1 1" "near (6 * e) 0 0" by (simp_all add: near_def)
  show ?thesis unfolding ramp_def by (rule near_max [OF c(2) near_min [OF c(1) m]])
qed

lemma near_ramp3:
  assumes "near e a b"
  shows "near (6 * e) (ramp3 a) (ramp3 b)"
proof -
  from assms have "near e (a - 1) (b - 1)" "near e (a + 1) (b + 1)" by (simp_all add: near_def)
  with assms show ?thesis unfolding ramp3_def
    by (intro near_max) (rule near_ramp, assumption)+
qed

lemma near_sixth: "near delta (js_div 1 6) (1 / 6)"
  unfolding js_div_def by (rule near_fl) simp_all

lemma near_two_thirds: "near delta (js_div 2 3) (2 / 3)"
  unfolding js_div_def by (rule near_fl) simp_all

lemma near_third: "near delta (js_div 1 3) (1 / 3)"
  unfolding js_div_def by (rule near_fl) simp_all

text \<open>Replacing the weight of a convex combination by one that is close to it.\<close>

lemma near_reweigh:
  assumes "near e x (p + (q - p) * w)" and "near e' w w'" and "- 2 \<le> p" "p \<le> 2" "- 2 \<le> q" "q \<le> 2"
  shows "near (e + 4 * e') x (p + (q - p) * w')"
proof -
  from assms(2) have w: "\<bar>w - w'\<bar> \<le> e'" by (simp add: near_def abs_le_iff)
  from assms(3-6) have qp: "\<bar>q - p\<bar> \<le> 4" by (simp add: abs_le_iff)
  have "\<bar>(q - p) * (w - w')\<bar> \<le> 4 * e'"
    unfolding abs_mult using qp w by (rule mult_mono) (simp_all add: order_trans [OF abs_ge_zero w])
  then have "\<bar>(p + (q - p) * w) - (p + (q - p) * w')\<bar> \<le> 4 * e'"
    by (simp add: algebra_simps)
  with assms(1) show ?thesis unfolding near_def by linarith
qed

subsection \<open>The four pieces of hue2rgb\<close>

lemma near_refl: "near 0 x x"
  by (simp add: near_def)

lemma abs_mult_le:
  fixes a b :: real
  assumes "\<bar>a\<bar> \<le> A" and "\<bar>b\<bar> \<le> B"
  shows "\<bar>a * b\<bar> \<le> A * B"
  unfolding abs_mult using assms by (rule mult_mono) (simp_all add: order_trans [OF abs_ge_zero assms(1)])

lemma near_js_mul:
  assumes "near e1 a a'" and "near e2 b b'"
    and "\<bar>a'\<bar> \<le> A" and "\<bar>b'\<bar> \<le> B" and "e2 \<le> 1"
    and "A * B \<le> 255" and "e1 * (B + 1) + A * e2 \<le> 1"
  shows "near (e1 * (B + 1) + A * e2 + delta) (js_mul a b) (a' * b')"
proof -
  from assms(2,4,5) have "\<bar>b\<bar> \<le> B + 1" unfolding near_def by linarith
  from near_mult [OF assms(1,2,3) this]
  have n: "near (e1 * (B + 1) + A * e2) (a * b) (a' * b')" .
  from abs_mult_le [OF assms(3,4)] assms(6) have "- 255 \<le> a' * b'" "a' * b' \<le> 255"
    by linarith+
  from near_fl_trans [OF n this assms(7)] show ?thesis by (simp add: js_mul_def)
qed

lemma delta_bounds: "0 < delta" "1000 * delta \<le> 1 / 1000"
  by (simp_all add: delta_def)

lemma hue_piece_near:
  assumes p: "- 2 \<le> p" "p \<le> 2" and q: "- 2 \<le> q" "q \<le> 2"
    and t: "- 3 * delta \<le> t" "t \<le> 1 + 3 * delta"
  shows "near (100 * delta) (hue_piece p q t) (p + (q - p) * ramp t)"
proof -
  note d = delta_bounds
  have s6: "1 / 6 - delta \<le> js_div 1 6" "js_div 1 6 \<le> 1 / 6 + delta"
    using near_sixth by (simp_all add: near_def)
  have tt: "2 / 3 - delta \<le> js_div 2 3" "js_div 2 3 \<le> 2 / 3 + delta"
    using near_two_thirds by (simp_all add: near_def)
  have qp: "near delta (js_sub q p) (q - p)"
    using near_js_sub [OF near_refl [of q] near_refl [of p]] p q by simp
  have aqp: "\<bar>q - p\<bar> \<le> 4" using p q by linarith
  have at: "\<bar>t\<bar> \<le> 2" using t d by linarith
  consider (b1) "t < js_div 1 6"
    | (b2) "\<not> t < js_div 1 6" "t < 1 / 2"
    | (b3) "\<not> t < js_div 1 6" "\<not> t < 1 / 2" "t < js_div 2 3"
    | (b4) "\<not> t < js_div 1 6" "\<not> t < 1 / 2" "\<not> t < js_div 2 3"
    by blast
  then show ?thesis
  proof cases
    case b1
    have m6: "near (6 * delta + delta) (js_mul (js_sub q p) 6) ((q - p) * 6)"
      using p q d by (intro near_js_mul_const [OF qp]) simp_all
    have a6: "\<bar>(q - p) * 6\<bar> \<le> 24" using aqp by simp
    have mt: "near ((6 * delta + delta) * (2 + 1) + 24 * 0 + delta)
        (js_mul (js_mul (js_sub q p) 6) t) ((q - p) * 6 * t)"
      using d by (intro near_js_mul [OF m6 near_refl a6 at]) simp_all
    from abs_mult_le [OF a6 at] have b: "- 48 \<le> (q - p) * 6 * t" "(q - p) * 6 * t \<le> 48"
      by linarith+
    have n: "near (0 + ((6 * delta + delta) * (2 + 1) + 24 * 0 + delta) + delta)
        (js_add p (js_mul (js_mul (js_sub q p) 6) t)) (p + (q - p) * 6 * t)"
      using p b d by (intro near_js_add [OF near_refl mt]) simp_all
    have h: "hue_piece p q t = js_add p (js_mul (js_mul (js_sub q p) 6) t)"
      using b1 by (simp add: hue_piece_def)
    have e: "(q - p) * (6 * t) = (q - p) * 6 * t" by simp
    have v: "near (23 * delta) (hue_piece p q t) (p + (q - p) * (6 * t))"
      unfolding h e by (rule near_weaken [OF n]) simp
    have w: "near (18 * delta) (6 * t) (ramp t)"
      using b1 t s6 d unfolding near_def ramp_def by (auto simp: max_def min_def)
    from near_reweigh [OF v w p q] show ?thesis by (rule near_weaken) (use d in simp)
  next
    case b2
    have v: "near 0 (hue_piece p q t) (p + (q - p) * 1)"
      using b2 by (simp add: hue_piece_def near_def)
    have w: "near (6 * delta) 1 (ramp t)"
      using b2 t s6 d unfolding near_def ramp_def by (auto simp: max_def min_def)
    from near_reweigh [OF v w p q] show ?thesis by (rule near_weaken) (use d in simp)
  next
    case b3
    have st: "near (delta + 0 + delta) (js_sub (js_div 2 3) t) (2 / 3 - t)"
      using t d b3 by (intro near_js_sub [OF near_two_thirds near_refl]) simp_all
    have a3: "\<bar>2 / 3 - t\<bar> \<le> 1" using b3 t d by linarith
    have m1: "near (delta * (1 + 1) + 4 * (delta + 0 + delta) + delta)
        (js_mul (js_sub q p) (js_sub (js_div 2 3) t)) ((q - p) * (2 / 3 - t))"
      using d by (intro near_js_mul [OF qp st aqp a3]) simp_all
    from abs_mult_le [OF aqp a3] have b: "- 4 \<le> (q - p) * (2 / 3 - t)" "(q - p) * (2 / 3 - t) \<le> 4"
      by linarith+
    have m2: "near (6 * (delta * (1 + 1) + 4 * (delta + 0 + delta) + delta) + delta)
        (js_mul (js_mul (js_sub q p) (js_sub (js_div 2 3) t)) 6) ((q - p) * (2 / 3 - t) * 6)"
      using b d by (intro near_js_mul_const [OF m1]) simp_all
    have n: "near (0 + (6 * (delta * (1 + 1) + 4 * (delta + 0 + delta) + delta) + delta) + delta)
        (js_add p (js_mul (js_mul (js_sub q p) (js_sub (js_div 2 3) t)) 6))
        (p + (q - p) * (2 / 3 - t) * 6)"
      using p b d by (intro near_js_add [OF near_refl m2]) simp_all
    have h: "hue_piece p q t = js_add p (js_mul (js_mul (js_sub q p) (js_sub (js_div 2 3) t)) 6)"
      using b3 by (simp add: hue_piece_def)
    have "(2 / 3 - t) * 6 = 4 - 6 * t" by simp
    then have e: "(q - p) * (4 - 6 * t) = (q - p) * (2 / 3 - t) * 6"
      by (simp only: mult.assoc)
    have v: "near (68 * delta) (hue_piece p q t) (p + (q - p) * (4 - 6 * t))"
      unfolding h e by (rule near_weaken [OF n]) simp
    have w: "near (6 * delta) (4 - 6 * t) (ramp t)"
      using b3 t tt d unfolding near_def ramp_def by (auto simp: max_def min_def)
    from near_reweigh [OF v w p q] show ?thesis by (rule near_weaken) (use d in simp)
  next
    case b4
    have v: "near 0 (hue_piece p q t) (p + (q - p) * 0)"
      using b4 by (simp add: hue_piece_def near_def)
    have w: "near (6 * delta) 0 (ramp t)"
      using b4 t tt d unfolding near_def ramp_def by (auto simp: max_def min_def)
    from near_reweigh [OF v w p q] show ?thesis by (rule near_weaken) (use d in simp)
  qed
qed

subsection \<open>hue2rgb with the wrap-around of its argument\<close>

lemma ramp_zero_left: "t \<le> 0 \<Longrightarrow> ramp t = 0"
  by (simp add: ramp_def max_def min_def)

lemma ramp_zero_right: "2 / 3 \<le> t \<Longrightarrow> ramp t = 0"
  by (simp add: ramp_def max_def min_def)

lemma ramp3_left: "t < 0 \<Longrightarrow> ramp3 t = ramp (t + 1)"
  using ramp_bounds(1) [of "t + 1"] by (simp add: ramp3_def ramp_zero_left)

lemma ramp3_mid: "0 \<le> t \<Longrightarrow> t \<le> 1 \<Longrightarrow> ramp3 t = ramp t"
  using ramp_bounds(1) [of t] by (simp add: ramp3_def ramp_zero_left ramp_zero_right)

lemma ramp3_right: "1 < t \<Longrightarrow> ramp3 t = ramp (t - 1)"
  using ramp_bounds(1) [of "t - 1"] by (simp add: ramp3_def ramp_zero_right)

lemma hue2rgb_near_ramp3:
  assumes p: "- 2 \<le> p" "p \<le> 2" and q: "- 2 \<le> q" "q \<le> 2"
    and t0: "- 2 / 5 \<le> t0" "t0 \<le> 7 / 5"
  shows "near (200 * delta) (hue2rgb p q t0) (p + (q - p) * ramp3 t0)"
proof -
  note d = delta_bounds
  consider (a1) "t0 < 0" "1 < js_add t0 1" | (a2) "t0 < 0" "\<not> 1 < js_add t0 1"
    | (b1) "\<not> t0 < 0" "1 < t0" | (b2) "\<not> t0 < 0" "\<not> 1 < t0"
    by blast
  then show ?thesis
  proof cases
    case a1
    have n1: "near (0 + 0 + delta) (js_add t0 1) (t0 + 1)"
      using t0 by (intro near_js_add [OF near_refl near_refl]) simp_all
    have n2: "near ((0 + 0 + delta) + 0 + delta) (js_sub (js_add t0 1) 1) (t0 + 1 - 1)"
      using t0 d by (intro near_js_sub [OF n1 near_refl]) simp_all
    have "0 \<le> js_sub (js_add t0 1) 1"
      unfolding js_sub_def using a1 by (intro fl_nonneg) simp
    with n2 a1 have t: "0 \<le> js_sub (js_add t0 1) 1" "js_sub (js_add t0 1) 1 \<le> 2 * delta"
      "- 2 * delta \<le> t0"
      by (simp_all add: near_def)
    have h: "hue2rgb p q t0 = hue_piece p q (js_sub (js_add t0 1) 1)"
      using a1 by (simp add: hue2rgb_pieces)
    have v: "near (100 * delta) (hue2rgb p q t0) (p + (q - p) * ramp (js_sub (js_add t0 1) 1))"
      unfolding h using t d by (intro hue_piece_near p q) simp_all
    have "ramp3 t0 = 0"
      using a1 t d by (simp add: ramp3_left ramp_zero_right)
    moreover have "0 \<le> ramp (js_sub (js_add t0 1) 1)" "ramp (js_sub (js_add t0 1) 1) \<le> 12 * delta"
      using t d by (simp_all add: ramp_def max_def min_def)
    ultimately have w: "near (12 * delta) (ramp (js_sub (js_add t0 1) 1)) (ramp3 t0)"
      by (simp add: near_def)
    from near_reweigh [OF v w p q] show ?thesis by (rule near_weaken) (use d in simp)
  next
    case a2
    have n1: "near (0 + 0 + delta) (js_add t0 1) (t0 + 1)"
      using t0 by (intro near_js_add [OF near_refl near_refl]) simp_all
    then have t: "- 3 * delta \<le> js_add t0 1" "js_add t0 1 \<le> 1 + 3 * delta"
      using t0 d a2 by (simp_all add: near_def)
    have h: "hue2rgb p q t0 = hue_piece p q (js_add t0 1)"
      using a2 by (simp add: hue2rgb_pieces)
    have v: "near (100 * delta) (hue2rgb p q t0) (p + (q - p) * ramp (js_add t0 1))"
      unfolding h using t by (intro hue_piece_near p q)
    have "ramp3 t0 = ramp (t0 + 1)" using a2 t0 by (simp add: ramp3_left)
    with near_ramp [OF n1] have w: "near (6 * (0 + 0 + delta)) (ramp (js_add t0 1)) (ramp3 t0)"
      by simp
    from near_reweigh [OF v w p q] show ?thesis by (rule near_weaken) (use d in simp)
  next
    case b1
    have n1: "near (0 + 0 + delta) (js_sub t0 1) (t0 - 1)"
      using t0 by (intro near_js_sub [OF near_refl near_refl]) simp_all
    have "0 \<le> js_sub t0 1"
      unfolding js_sub_def using b1 by (intro fl_nonneg) simp
    with n1 t0 d have t: "- 3 * delta \<le> js_sub t0 1" "js_sub t0 1 \<le> 1 + 3 * delta"
      by (simp_all add: near_def)
    have h: "hue2rgb p q t0 = hue_piece p q (js_sub t0 1)"
      using b1 by (simp add: hue2rgb_pieces)
    have v: "near (100 * delta) (hue2rgb p q t0) (p + (q - p) * ramp (js_sub t0 1))"
      unfolding h using t by (intro hue_piece_near p q)
    have "ramp3 t0 = ramp (t0 - 1)" using b1 by (simp add: ramp3_right)
    with near_ramp [OF n1] have w: "near (6 * (0 + 0 + delta)) (ramp (js_sub t0 1)) (ramp3 t0)"
      by simp
    from near_reweigh [OF v w p q] show ?thesis by (rule near_weaken) (use d in simp)
  next
    case b2
    then have t: "- 3 * delta \<le> t0" "t0 \<le> 1 + 3 * delta" using d by simp_all
    have h: "hue2rgb p q t0 = hue_piece p q t0"
      using b2 by (simp add: hue2rgb_pieces)
    have v: "near (100 * delta) (hue2rgb p q t0) (p + (q - p) * ramp t0)"
      unfolding h using t by (intro hue_piece_near p q)
    have "ramp3 t0 = ramp t0" using b2 by (simp add: ramp3_mid)
    then have w: "near 0 (ramp t0) (ramp3 t0)" by (simp add: near_def)
    from near_reweigh [OF v w p q] show ?thesis by (rule near_weaken) (use d in simp)
  qed
qed

lemma hue2rgb_near:
  assumes n: "near e p p'" "near e q q'" "near e t0 t0'"
    and p': "0 \<le> p'" "p' \<le> 1" and q': "0 \<le> q'" "q' \<le> 1"
    and t0': "- 1 / 3 \<le> t0'" "t0' \<le> 4 / 3" and e: "e \<le> 1 / 100"
  shows "near (200 * delta + 9 * e) (hue2rgb p q t0) (p' + (q' - p') * ramp3 t0')"
proof -
  from n p' q' t0' e have b: "- 2 \<le> p" "p \<le> 2" "- 2 \<le> q" "q \<le> 2" "- 2 / 5 \<le> t0" "t0 \<le> 7 / 5"
    by (simp_all add: near_def)
  from hue2rgb_near_ramp3 [OF b]
  have v: "near (200 * delta) (hue2rgb p q t0) (p + (q - p) * ramp3 t0)" .
  from n(1,2) have d: "near (e + e) (q - p) (q' - p')" by (simp add: near_def)
  from p' q' have a: "\<bar>q' - p'\<bar> \<le> 1" by linarith
  from ramp3_bounds [of t0] have w: "\<bar>ramp3 t0\<bar> \<le> 1" by linarith
  from near_mult [OF d near_ramp3 [OF n(3)] a w]
  have "near ((e + e) * 1 + 1 * (6 * e)) ((q - p) * ramp3 t0) ((q' - p') * ramp3 t0')" .
  with n(1) have "near (9 * e) (p + (q - p) * ramp3 t0) (p' + (q' - p') * ramp3 t0')"
    by (simp add: near_def)
  with v show ?thesis by (simp add: near_def)
qed

subsection \<open>The unit fractions of bytes\<close>

lemma near_byte:
  assumes "n \<le> 255"
  shows "near delta (js_div (real n) 255) (real n / 255)"
proof -
  from assms have "real n \<le> 255" by simp
  then have "near (0 / 255 + delta) (js_div (real n) 255) (real n / 255)"
    by (intro near_js_div_const [OF near_refl]) simp_all
  then show ?thesis by simp
qed

lemma byte_less:
  assumes "a < b" and "b \<le> 255"
  shows "js_div (real a) 255 < js_div (real b) 255"
proof -
  from assms have "a \<le> 255" by simp
  from near_byte [OF this] near_byte [OF assms(2)]
  have "js_div (real a) 255 \<le> real a / 255 + delta" "real b / 255 - delta \<le> js_div (real b) 255"
    by (simp_all add: near_def)
  moreover from assms(1) have "real a + 1 \<le> real b" by linarith
  then have "real a / 255 + 1 / 255 \<le> real b / 255" by (simp add: field_simps)
  ultimately show ?thesis using delta_bounds by linarith
qed

lemma byte_less_iff:
  assumes "a \<le> 255" and "b \<le> 255"
  shows "js_div (real a) 255 < js_div (real b) 255 \<longleftrightarrow> a < b"
proof
  assume l: "js_div (real a) 255 < js_div (real b) 255"
  show "a < b"
  proof (rule ccontr)
    assume "\<not> a < b"
    then have "b < a \<or> b = a" by linarith
    with byte_less [of b a] assms l show False by auto
  qed
qed (rule byte_less [OF _ assms(2)])

lemma byte_eq_iff:
  assumes "a \<le> 255" and "b \<le> 255"
  shows "js_div (real a) 255 = js_div (real b) 255 \<longleftrightarrow> a = b"
  using byte_less [of a b] byte_less [of b a] assms
  by (cases a b rule: linorder_cases) auto

lemma byte_max:
  assumes "a \<le> 255" and "b \<le> 255"
  shows "max (js_div (real a) 255) (js_div (real b) 255) = js_div (real (max a b)) 255"
  using byte_less [of a b] byte_less [of b a] assms
  by (cases a b rule: linorder_cases) (auto simp: max_def)

lemma byte_min:
  assumes "a \<le> 255" and "b \<le> 255"
  shows "min (js_div (real a) 255) (js_div (real b) 255) = js_div (real (min a b)) 255"
  using byte_less [of a b] byte_less [of b a] assms
  by (cases a b rule: linorder_cases) (auto simp: min_def)

text \<open>\<^verbatim>\<open>rgbToHsl\<close> on bytes, with its comparisons of numbers turned into comparisons of bytes.\<close>

lemma rgbToHsl_bytes:
  assumes "R \<le> 255" and "G \<le> 255" and "B \<le> 255"
  shows "rgbToHsl (real R) (real G) (real B) =
    (let mx = js_div (real (max R (max G B))) 255; mn = js_div (real (min R (min G B))) 255;
         l = js_div (js_add mx mn) 2
     in if max R (max G B) = min R (min G B) then (0, 0, l)
        else
          let d = js_sub mx mn;
              s = (if 1 / 2 < l then js_div d (js_sub (js_sub 2 mx) mn) else js_div d (js_add mx mn));
              h = (if max R (max G B) = R
                   then js_add (js_div (js_sub (js_div (real G) 255) (js_div (real B) 255)) d)
                          (if G < B then 6 else 0)
                   else if max R (max G B) = G
                   then js_add (js_div (js_sub (js_div (real B) 255) (js_div (real R) 255)) d) 2
                   else js_add (js_div (js_sub (js_div (real R) 255) (js_div (real G) 255)) d) 4)
          in (js_div h 6, s, l))"
proof -
  have m: "max G B \<le> 255" "min G B \<le> 255" "max R (max G B) \<le> 255" "min R (min G B) \<le> 255"
    using assms by simp_all
  show ?thesis
    unfolding rgbToHsl_def
    by (simp only: Let_def byte_max [OF assms(2,3)] byte_min [OF assms(2,3)]
        byte_max [OF assms(1) m(1)] byte_min [OF assms(1) m(2)]
        byte_eq_iff [OF m(3) m(4)] byte_eq_iff [OF m(3) assms(1)] byte_eq_iff [OF m(3) assms(2)]
        byte_less_iff [OF assms(2,3)])
qed

subsection \<open>Lightness, chroma and saturation\<close>

lemma light_near:
  assumes "M \<le> 255" and "m \<le> 255"
  shows "near (3 * delta) (js_div (js_add (js_div (real M) 255) (js_div (real m) 255)) 2)
    (light_exact M m)"
proof -
  note d = delta_bounds
  from assms have b: "real M \<le> 255" "real m \<le> 255" by simp_all
  have s: "near (delta + delta + delta) (js_add (js_div (real M) 255) (js_div (real m) 255))
      (real M / 255 + real m / 255)"
    using b d by (intro near_js_add [OF near_byte near_byte] assms) simp_all
  have "near ((delta + delta + delta) / 2 + delta)
      (js_div (js_add (js_div (real M) 255) (js_div (real m) 255)) 2)
      ((real M / 255 + real m / 255) / 2)"
    using b d by (intro near_js_div_const [OF s]) simp_all
  moreover have "(real M / 255 + real m / 255) / 2 = light_exact M m"
    by (simp add: light_exact_def)
  ultimately show ?thesis using d by (simp add: near_def)
qed

lemma chroma_near:
  assumes "M \<le> 255" and "m < M"
  shows "near (3 * delta) (js_sub (js_div (real M) 255) (js_div (real m) 255))
      ((real M - real m) / 255)"
    and "1 / 256 \<le> js_sub (js_div (real M) 255) (js_div (real m) 255)"
proof -
  note d = delta_bounds
  from assms have m: "m \<le> 255" by simp
  from assms have b: "real M \<le> 255" "real m + 1 \<le> real M" by simp_all
  have "near (delta + delta + delta) (js_sub (js_div (real M) 255) (js_div (real m) 255))
      (real M / 255 - real m / 255)"
    using b d by (intro near_js_sub [OF near_byte near_byte] assms m) simp_all
  moreover have "real M / 255 - real m / 255 = (real M - real m) / 255"
    by (simp add: diff_divide_distrib)
  ultimately show n: "near (3 * delta) (js_sub (js_div (real M) 255) (js_div (real m) 255))
      ((real M - real m) / 255)" by simp
  from b have "1 / 255 \<le> (real M - real m) / 255" by (simp add: field_simps)
  with n d show "1 / 256 \<le> js_sub (js_div (real M) 255) (js_div (real m) 255)"
    unfolding near_def by linarith
qed

lemma frac_cancel: "(x::real) / 255 / (y / 255) = x / y"
  by simp

text \<open>The quotient of a difference of two channels by the chroma.\<close>

lemma ratio_near:
  assumes "M \<le> 255" and "m < M" and "X \<le> 255" and "Y \<le> 255"
    and "\<bar>real X - real Y\<bar> \<le> real M - real m"
  shows "near (1537 * delta)
    (js_div (js_sub (js_div (real X) 255) (js_div (real Y) 255))
       (js_sub (js_div (real M) 255) (js_div (real m) 255)))
    ((real X - real Y) / (real M - real m))"
proof -
  note d = delta_bounds
  let ?d = "js_sub (js_div (real M) 255) (js_div (real m) 255)"
  from assms have b: "real X \<le> 255" "real Y \<le> 255" "real m + 1 \<le> real M" "real M \<le> 255"
    by simp_all
  have "near (delta + delta + delta) (js_sub (js_div (real X) 255) (js_div (real Y) 255))
      (real X / 255 - real Y / 255)"
    using b d by (intro near_js_sub [OF near_byte near_byte] assms) simp_all
  moreover have "real X / 255 - real Y / 255 = (real X - real Y) / 255"
    by (simp add: diff_divide_distrib)
  ultimately have n: "near (3 * delta) (js_sub (js_div (real X) 255) (js_div (real Y) 255))
      ((real X - real Y) / 255)" by simp
  from b have c: "1 / 256 \<le> (real M - real m) / 255" by (simp add: field_simps)
  from assms(5) have r: "\<bar>(real X - real Y) / 255\<bar> \<le> 1 * ((real M - real m) / 255)"
    by (simp add: field_simps)
  from near_divide [OF n chroma_near(1) [OF assms(1,2)] _ chroma_near(2) [OF assms(1,2)] c r]
  have "near ((3 * delta + 1 * (3 * delta)) / (1 / 256))
      (js_sub (js_div (real X) 255) (js_div (real Y) 255) / ?d)
      ((real X - real Y) / 255 / ((real M - real m) / 255))"
    by simp
  moreover have "(real X - real Y) / 255 / ((real M - real m) / 255)
      = (real X - real Y) / (real M - real m)"
    by (rule frac_cancel)
  ultimately have q: "near (1536 * delta)
      (js_sub (js_div (real X) 255) (js_div (real Y) 255) / ?d)
      ((real X - real Y) / (real M - real m))"
    by simp
  from assms(5) b have "\<bar>(real X - real Y) / (real M - real m)\<bar> \<le> 1"
    by (simp add: field_simps)
  then have "- 255 \<le> (real X - real Y) / (real M - real m)"
    "(real X - real Y) / (real M - real m) \<le> 255" by linarith+
  from near_fl_trans [OF q this] d show ?thesis by (simp add: js_div_def)
qed

lemma nearD: "near e x y \<Longrightarrow> y - e \<le> x" "near e x y \<Longrightarrow> x \<le> y + e"
  by (simp_all add: near_def)

lemma sat_near:
  assumes "M \<le> 255" and "m < M"
  shows "near (2000 * delta)
    (if 1 / 2 < js_div (js_add (js_div (real M) 255) (js_div (real m) 255)) 2
     then js_div (js_sub (js_div (real M) 255) (js_div (real m) 255))
            (js_sub (js_sub 2 (js_div (real M) 255)) (js_div (real m) 255))
     else js_div (js_sub (js_div (real M) 255) (js_div (real m) 255))
            (js_add (js_div (real M) 255) (js_div (real m) 255)))
    (sat_exact M m)"
proof -
  note d = delta_bounds
  let ?mx = "js_div (real M) 255" and ?mn = "js_div (real m) 255"
  let ?l = "js_div (js_add ?mx ?mn) 2"
  let ?d = "js_sub ?mx ?mn"
  from assms have m: "m \<le> 255" by simp
  from assms have b: "real M \<le> 255" "real m + 1 \<le> real M" by simp_all
  have ln: "near (3 * delta) ?l (light_exact M m)" by (rule light_near [OF assms(1) m])
  note dn = chroma_near [OF assms]
  have le: "real M + real m = 510 * light_exact M m" by (simp add: light_exact_def)
  show ?thesis
  proof (cases "1 / 2 < ?l")
    case True
    with nearD [OF ln] d le have "254 < real M + real m" by linarith
    then have "254 < M + m" by linarith
    then have hi: "255 \<le> M + m" by simp
    have n2: "near (0 + delta + delta) (js_sub 2 ?mx) (2 - real M / 255)"
      using b d by (intro near_js_sub [OF near_refl near_byte] assms) simp_all
    have "near ((0 + delta + delta) + delta + delta) (js_sub (js_sub 2 ?mx) ?mn)
        (2 - real M / 255 - real m / 255)"
      using b d by (intro near_js_sub [OF n2 near_byte [OF m]]) simp_all
    moreover have "2 - real M / 255 - real m / 255 = (510 - real M - real m) / 255"
      by (simp add: field_simps)
    ultimately have Dn: "near (4 * delta) (js_sub (js_sub 2 ?mx) ?mn) ((510 - real M - real m) / 255)"
      by simp
    from b have c': "1 / 255 \<le> (510 - real M - real m) / 255" by (simp add: field_simps)
    then have c: "1 / 256 \<le> (510 - real M - real m) / 255" by linarith
    from nearD [OF Dn] c' d have cf: "1 / 256 \<le> js_sub (js_sub 2 ?mx) ?mn" by linarith
    from b have r: "\<bar>(real M - real m) / 255\<bar> \<le> 1 * ((510 - real M - real m) / 255)"
      by (simp add: field_simps)
    from near_divide [OF dn(1) Dn _ cf c r]
    have "near ((3 * delta + 1 * (4 * delta)) / (1 / 256)) (?d / js_sub (js_sub 2 ?mx) ?mn)
        ((real M - real m) / 255 / ((510 - real M - real m) / 255))"
      by simp
    then have q: "near (1792 * delta) (?d / js_sub (js_sub 2 ?mx) ?mn)
        ((real M - real m) / (510 - real M - real m))"
      by (simp only: frac_cancel) simp
    have e: "(real M - real m) / (510 - real M - real m) = sat_exact M m"
    proof (cases "255 < M + m")
      case True
      then show ?thesis by (simp add: sat_exact_def)
    next
      case False
      with hi have "M + m = 255" by simp
      then have "real M + real m = 255" by linarith
      then have "510 - real M - real m = real M + real m" by linarith
      with False show ?thesis by (simp add: sat_exact_def)
    qed
    from b have "\<bar>(real M - real m) / (510 - real M - real m)\<bar> \<le> 1"
      by (simp add: field_simps)
    then have "- 255 \<le> sat_exact M m" "sat_exact M m \<le> 255" unfolding e by linarith+
    from near_fl_trans [OF q [unfolded e] this] d True show ?thesis
      by (simp add: js_div_def near_def)
  next
    case False
    with nearD [OF ln] d le have "real M + real m < 256" by linarith
    then have "M + m < 256" by linarith
    then have lo: "\<not> 255 < M + m" by simp
    have Dn: "near (delta + delta + delta) (js_add ?mx ?mn) (real M / 255 + real m / 255)"
      using b d by (intro near_js_add [OF near_byte near_byte] assms m) simp_all
    have s: "real M / 255 + real m / 255 = (real M + real m) / 255"
      by (simp add: add_divide_distrib)
    from b have c': "1 / 255 \<le> (real M + real m) / 255" by (simp add: field_simps)
    then have c: "1 / 256 \<le> (real M + real m) / 255" by linarith
    from nearD [OF Dn [unfolded s]] c' d have cf: "1 / 256 \<le> js_add ?mx ?mn" by linarith
    from b have r: "\<bar>(real M - real m) / 255\<bar> \<le> 1 * ((real M + real m) / 255)"
      by (simp add: field_simps)
    from near_divide [OF dn(1) Dn [unfolded s] _ cf c r]
    have "near ((3 * delta + 1 * (delta + delta + delta)) / (1 / 256)) (?d / js_add ?mx ?mn)
        ((real M - real m) / 255 / ((real M + real m) / 255))"
      by simp
    then have q: "near (1536 * delta) (?d / js_add ?mx ?mn) ((real M - real m) / (real M + real m))"
      by (simp only: frac_cancel) simp
    from lo have e: "(real M - real m) / (real M + real m) = sat_exact M m"
      by (simp add: sat_exact_def)
    from b have "\<bar>(real M - real m) / (real M + real m)\<bar> \<le> 1"
      by (simp add: field_simps)
    then have "- 255 \<le> sat_exact M m" "sat_exact M m \<le> 255" unfolding e by linarith+
    from near_fl_trans [OF q [unfolded e] this] d False show ?thesis
      by (simp add: js_div_def near_def)
  qed
qed

text \<open>
  The three divisors of \<^verbatim>\<open>rgbToHsl\<close> on bytes that are not all equal: none is zero, so that
  no division of the program yields NaN or an infinity.
\<close>

lemma rgbToHsl_divisors:
  assumes "M \<le> 255" and "m < M"
  shows "1 / 256 \<le> js_sub (js_div (real M) 255) (js_div (real m) 255)"
    and "1 / 256 \<le> js_add (js_div (real M) 255) (js_div (real m) 255)"
    and "1 / 256 \<le> js_sub (js_sub 2 (js_div (real M) 255)) (js_div (real m) 255)"
proof -
  note d = delta_bounds
  let ?mx = "js_div (real M) 255" and ?mn = "js_div (real m) 255"
  from assms have m: "m \<le> 255" by simp
  from assms have b: "real M \<le> 255" "real m + 1 \<le> real M" by simp_all
  note M = nearD [OF near_byte [OF assms(1)]]
  note mm = nearD [OF near_byte [OF m]]
  from b have f: "1 / 255 \<le> real M / 255" "real M / 255 \<le> 1" "0 \<le> real m / 255"
    "real m / 255 \<le> 254 / 255"
    by simp_all
  show "1 / 256 \<le> js_sub ?mx ?mn" by (rule chroma_near(2) [OF assms])
  have "near (delta + delta + delta) (js_add ?mx ?mn) (real M / 255 + real m / 255)"
    using b d by (intro near_js_add [OF near_byte near_byte] assms m) simp_all
  from nearD(1) [OF this] f d show "1 / 256 \<le> js_add ?mx ?mn" by linarith
  have n2: "near (0 + delta + delta) (js_sub 2 ?mx) (2 - real M / 255)"
    using b d by (intro near_js_sub [OF near_refl near_byte] assms) simp_all
  have "near ((0 + delta + delta) + delta + delta) (js_sub (js_sub 2 ?mx) ?mn)
      (2 - real M / 255 - real m / 255)"
    using b d by (intro near_js_sub [OF n2 near_byte [OF m]]) simp_all
  from nearD(1) [OF this] f d show "1 / 256 \<le> js_sub (js_sub 2 ?mx) ?mn" by linarith
qed

lemma sat_exact_bounds:
  assumes "M \<le> 255" and "m < M"
  shows "1 / 510 \<le> sat_exact M m" and "sat_exact M m \<le> 1"
proof -
  from assms have b: "real M \<le> 255" "real m + 1 \<le> real M" "0 \<le> real m" by simp_all
  show "1 / 510 \<le> sat_exact M m"
  proof (cases "255 < M + m")
    case True
    from b have "0 < 510 - real M - real m" "510 - real M - real m \<le> 510 * (real M - real m)"
      by (simp_all add: algebra_simps)
    then have "1 / 510 \<le> (real M - real m) / (510 - real M - real m)"
      by (simp add: field_simps)
    with True show ?thesis by (simp add: sat_exact_def)
  next
    case False
    from b have "0 < real M + real m" "real M + real m \<le> 510 * (real M - real m)"
      by (simp_all add: algebra_simps)
    then have "1 / 510 \<le> (real M - real m) / (real M + real m)"
      by (simp add: field_simps)
    with False show ?thesis by (simp add: sat_exact_def)
  qed
  from b show "sat_exact M m \<le> 1"
    by (simp add: sat_exact_def field_simps)
qed

lemma hue_sector_near:
  assumes "M \<le> 255" and "m < M" and "X \<le> 255" and "Y \<le> 255"
    and "\<bar>real X - real Y\<bar> \<le> real M - real m" and "0 \<le> off" and "off \<le> 6"
  shows "near (300 * delta)
    (js_div (js_add (js_div (js_sub (js_div (real X) 255) (js_div (real Y) 255))
       (js_sub (js_div (real M) 255) (js_div (real m) 255))) off) 6)
    (((real X - real Y) / (real M - real m) + off) / 6)"
proof -
  note d = delta_bounds
  from assms have b: "real m + 1 \<le> real M" by simp
  with assms(5) have "\<bar>(real X - real Y) / (real M - real m)\<bar> \<le> 1"
    by (simp add: field_simps)
  then have r: "- 1 \<le> (real X - real Y) / (real M - real m)"
    "(real X - real Y) / (real M - real m) \<le> 1" by linarith+
  have "near (1537 * delta + 0 + delta)
    (js_add (js_div (js_sub (js_div (real X) 255) (js_div (real Y) 255))
       (js_sub (js_div (real M) 255) (js_div (real m) 255))) off)
    ((real X - real Y) / (real M - real m) + off)"
    using r assms(6,7) d by (intro near_js_add [OF ratio_near [OF assms(1-5)] near_refl]) simp_all
  then have "near ((1537 * delta + 0 + delta) / 6 + delta)
    (js_div (js_add (js_div (js_sub (js_div (real X) 255) (js_div (real Y) 255))
       (js_sub (js_div (real M) 255) (js_div (real m) 255))) off) 6)
    (((real X - real Y) / (real M - real m) + off) / 6)"
    using r assms(6,7) d by (intro near_js_div_const) simp_all
  then show ?thesis by (rule near_weaken) (use d in simp)
qed

subsection \<open>Hue\<close>

lemma hue_exact_cases:
  assumes "M = max R (max G B)" and "m = min R (min G B)"
  shows "hue_exact R G B =
    (if M = R then (real G - real B) / (real M - real m) + (if G < B then 6 else 0)
     else if M = G then (real B - real R) / (real M - real m) + 2
     else (real R - real G) / (real M - real m) + 4) / 6"
  unfolding hue_exact_def Let_def assms [symmetric] ..

lemma hue_near:
  assumes "R \<le> 255" and "G \<le> 255" and "B \<le> 255"
    and M: "M = max R (max G B)" and m: "m = min R (min G B)" and mM: "m < M"
  shows "near (300 * delta)
    (js_div
      (if M = R
       then js_add (js_div (js_sub (js_div (real G) 255) (js_div (real B) 255))
              (js_sub (js_div (real M) 255) (js_div (real m) 255)))
              (if G < B then 6 else 0)
       else if M = G
       then js_add (js_div (js_sub (js_div (real B) 255) (js_div (real R) 255))
              (js_sub (js_div (real M) 255) (js_div (real m) 255))) 2
       else js_add (js_div (js_sub (js_div (real R) 255) (js_div (real G) 255))
              (js_sub (js_div (real M) 255) (js_div (real m) 255))) 4)
      6)
    (hue_exact R G B)"
proof -
  have M255: "M \<le> 255" using assms(1-3) by (simp add: M)
  have r: "real m \<le> real R" "real R \<le> real M" "real m \<le> real G" "real G \<le> real M"
    "real m \<le> real B" "real B \<le> real M"
    by (simp_all add: M m)
  have gb: "\<bar>real G - real B\<bar> \<le> real M - real m" using r by linarith
  have br: "\<bar>real B - real R\<bar> \<le> real M - real m" using r by linarith
  have rg: "\<bar>real R - real G\<bar> \<le> real M - real m" using r by linarith
  note s1 = hue_sector_near [OF M255 mM assms(2,3) gb]
  note s2 = hue_sector_near [OF M255 mM assms(3,1) br]
  note s3 = hue_sector_near [OF M255 mM assms(1,2) rg]
  consider (r1) "M = R" "G < B" | (r2) "M = R" "\<not> G < B" | (g) "M \<noteq> R" "M = G"
    | (b) "M \<noteq> R" "M \<noteq> G"
    by blast
  then show ?thesis
  proof cases
    case r1
    show ?thesis unfolding hue_exact_cases [OF M m] if_P [OF r1(1)] if_P [OF r1(2)]
      by (rule s1) simp_all
  next
    case r2
    show ?thesis unfolding hue_exact_cases [OF M m] if_P [OF r2(1)] if_not_P [OF r2(2)]
      by (rule s1) simp_all
  next
    case g
    show ?thesis unfolding hue_exact_cases [OF M m] if_not_P [OF g(1)] if_P [OF g(2)]
      by (rule s2) simp_all
  next
    case b
    show ?thesis unfolding hue_exact_cases [OF M m] if_not_P [OF b(1)] if_not_P [OF b(2)]
      by (rule s3) simp_all
  qed
qed

lemma hue_exact_bounds:
  assumes M: "M = max R (max G B)" and m: "m = min R (min G B)" and mM: "m < M"
  shows "0 \<le> hue_exact R G B" and "hue_exact R G B \<le> 1"
proof -
  define D where "D = real M - real m"
  have D: "0 < D" using mM by (simp add: D_def)
  have r: "real m \<le> real R" "real R \<le> real M" "real m \<le> real G" "real G \<le> real M"
    "real m \<le> real B" "real B \<le> real M"
    by (simp_all add: M m)
  have q: "- 1 \<le> (real G - real B) / D" "(real G - real B) / D \<le> 1"
    "- 1 \<le> (real B - real R) / D" "(real B - real R) / D \<le> 1"
    "- 1 \<le> (real R - real G) / D" "(real R - real G) / D \<le> 1"
    using r D by (simp_all add: D_def field_simps)
  have n: "G < B \<Longrightarrow> (real G - real B) / D \<le> 0" "\<not> G < B \<Longrightarrow> 0 \<le> (real G - real B) / D"
    using D by (simp_all add: field_simps)
  consider (r1) "M = R" "G < B" | (r2) "M = R" "\<not> G < B" | (g) "M \<noteq> R" "M = G"
    | (b) "M \<noteq> R" "M \<noteq> G"
    by blast
  then have "0 \<le> hue_exact R G B \<and> hue_exact R G B \<le> 1"
  proof cases
    case r1
    show ?thesis
      unfolding hue_exact_cases [OF M m] if_P [OF r1(1)] if_P [OF r1(2)] D_def [symmetric]
      using q n(1) [OF r1(2)] by simp
  next
    case r2
    show ?thesis
      unfolding hue_exact_cases [OF M m] if_P [OF r2(1)] if_not_P [OF r2(2)] D_def [symmetric]
      using q n(2) [OF r2(2)] by simp
  next
    case g
    show ?thesis
      unfolding hue_exact_cases [OF M m] if_not_P [OF g(1)] if_P [OF g(2)] D_def [symmetric]
      using q by simp
  next
    case b
    show ?thesis
      unfolding hue_exact_cases [OF M m] if_not_P [OF b(1)] if_not_P [OF b(2)] D_def [symmetric]
      using q by simp
  qed
  then show "0 \<le> hue_exact R G B" and "hue_exact R G B \<le> 1" by simp_all
qed

lemma light_exact_bounds:
  assumes "M \<le> 255" and "m \<le> 255"
  shows "0 \<le> light_exact M m" and "light_exact M m \<le> 1"
  using assms by (simp_all add: light_exact_def)

lemma rgbToHsl_near:
  assumes "R \<le> 255" and "G \<le> 255" and "B \<le> 255"
    and M: "M = max R (max G B)" and m: "m = min R (min G B)" and mM: "m < M"
  shows "\<exists>h s l. rgbToHsl (real R) (real G) (real B) = (h, s, l)
    \<and> near (300 * delta) h (hue_exact R G B)
    \<and> near (2000 * delta) s (sat_exact M m)
    \<and> near (3 * delta) l (light_exact M m)"
proof -
  have M255: "M \<le> 255" "m \<le> 255" using assms(1-3) by (simp_all add: M m)
  from mM have ne: "M \<noteq> m" by simp
  show ?thesis
    unfolding rgbToHsl_bytes [OF assms(1-3)] M [symmetric] m [symmetric] Let_def if_not_P [OF ne]
    using hue_near [OF assms] sat_near [OF M255(1) mM] light_near [OF M255]
    by blast
qed

lemma rgbToHsl_grey_near:
  assumes "R \<le> 255"
  shows "\<exists>l. rgbToHsl (real R) (real R) (real R) = (0, 0, l) \<and> near (3 * delta) l (real R / 255)"
proof -
  have "light_exact R R = real R / 255" by (simp add: light_exact_def)
  with light_near [OF assms assms] show ?thesis
    unfolding rgbToHsl_bytes [OF assms assms assms] Let_def by simp
qed

subsection \<open>The intermediate values of hslToRgb\<close>

lemma mult_unit_bounds:
  fixes a b :: real
  assumes "0 \<le> a" "a \<le> 1" "0 \<le> b" "b \<le> 1"
  shows "0 \<le> a * b" and "a * b \<le> 1" and "a * b \<le> a" and "a * b \<le> b"
proof -
  show "0 \<le> a * b" using assms by simp
  show "a * b \<le> a" using mult_left_mono [of b 1 a] assms by simp
  show "a * b \<le> b" using mult_right_mono [of a 1 b] assms by simp
  then show "a * b \<le> 1" using assms by linarith
qed

lemma js_mul_commute: "js_mul a b = js_mul b a"
  by (simp add: js_mul_def mult.commute)

text \<open>The two intermediate values \<open>q\<close> and \<open>p\<close> of \<^verbatim>\<open>hslToRgb\<close>.\<close>

lemma pq_near:
  assumes ln: "near e l l'" and sn: "near e s s'"
    and l': "0 \<le> l'" "l' \<le> 1" and s': "0 \<le> s'" "s' \<le> 1" and e: "e \<le> 1 / 1000"
  shows "near (6 * e + 4 * delta)
      (if l < 1 / 2 then js_mul l (js_add 1 s) else js_sub (js_add l s) (js_mul l s))
      (if l < 1 / 2 then l' * (1 + s') else l' + s' - l' * s')"
    and "near (8 * e + 6 * delta)
      (js_sub (js_mul 2 l)
         (if l < 1 / 2 then js_mul l (js_add 1 s) else js_sub (js_add l s) (js_mul l s)))
      (2 * l' - (if l < 1 / 2 then l' * (1 + s') else l' + s' - l' * s'))"
proof -
  note d = delta_bounds
  from ln have e0: "0 \<le> e" unfolding near_def by linarith
  note ls = mult_unit_bounds [OF l' s']
  have al: "\<bar>l'\<bar> \<le> 1" using l' by linarith
  have as: "\<bar>s'\<bar> \<le> 1" using s' by linarith
  have as1: "\<bar>1 + s'\<bar> \<le> 2" using s' by linarith
  have l2: "near (2 * e + delta) (js_mul 2 l) (l' * 2)"
    unfolding js_mul_commute [of 2 l] using l' e e0 by (intro near_js_mul_const [OF ln]) simp_all
  have q: "near (6 * e + 4 * delta)
      (if l < 1 / 2 then js_mul l (js_add 1 s) else js_sub (js_add l s) (js_mul l s))
      (if l < 1 / 2 then l' * (1 + s') else l' + s' - l' * s')"
  proof (cases "l < 1 / 2")
    case True
    have a: "near (0 + e + delta) (js_add 1 s) (1 + s')"
      using s' e e0 by (intro near_js_add [OF near_refl sn]) simp_all
    have "near (e * (2 + 1) + 1 * (0 + e + delta) + delta) (js_mul l (js_add 1 s)) (l' * (1 + s'))"
      using e e0 d by (intro near_js_mul [OF ln a al as1]) simp_all
    then have "near (6 * e + 4 * delta) (js_mul l (js_add 1 s)) (l' * (1 + s'))"
      by (rule near_weaken) (use e0 d in simp)
    with True show ?thesis by simp
  next
    case False
    have a: "near (e + e + delta) (js_add l s) (l' + s')"
      using l' s' e e0 by (intro near_js_add [OF ln sn]) simp_all
    have m: "near (e * (1 + 1) + 1 * e + delta) (js_mul l s) (l' * s')"
      using e e0 d by (intro near_js_mul [OF ln sn al as]) simp_all
    have "near ((e + e + delta) + (e * (1 + 1) + 1 * e + delta) + delta)
        (js_sub (js_add l s) (js_mul l s)) (l' + s' - l' * s')"
      using l' s' ls e e0 d by (intro near_js_sub [OF a m]) simp_all
    then have "near (6 * e + 4 * delta) (js_sub (js_add l s) (js_mul l s)) (l' + s' - l' * s')"
      by (rule near_weaken) (use e0 d in simp)
    with False show ?thesis by simp
  qed
  then show "near (6 * e + 4 * delta)
      (if l < 1 / 2 then js_mul l (js_add 1 s) else js_sub (js_add l s) (js_mul l s))
      (if l < 1 / 2 then l' * (1 + s') else l' + s' - l' * s')" .
  have b: "0 \<le> (if l < 1 / 2 then l' * (1 + s') else l' + s' - l' * s')"
    "(if l < 1 / 2 then l' * (1 + s') else l' + s' - l' * s') \<le> 2"
    using l' s' ls by (simp_all add: distrib_left)
  have p0: "near ((2 * e + delta) + (6 * e + 4 * delta) + delta)
      (js_sub (js_mul 2 l)
         (if l < 1 / 2 then js_mul l (js_add 1 s) else js_sub (js_add l s) (js_mul l s)))
      (l' * 2 - (if l < 1 / 2 then l' * (1 + s') else l' + s' - l' * s'))"
    using b l' e e0 d by (intro near_js_sub [OF l2 q]) simp_all
  have c: "2 * l' = l' * 2" by simp
  show "near (8 * e + 6 * delta)
      (js_sub (js_mul 2 l)
         (if l < 1 / 2 then js_mul l (js_add 1 s) else js_sub (js_add l s) (js_mul l s)))
      (2 * l' - (if l < 1 / 2 then l' * (1 + s') else l' + s' - l' * s'))"
    unfolding c by (rule near_weaken [OF p0]) (use e0 d in simp)
qed

text \<open>The exact lightness and saturation give back the largest and the smallest channel.\<close>

lemma pq_exact_low:
  assumes "m < M" and "M + m \<le> 255"
  shows "light_exact M m * (1 + sat_exact M m) = real M / 255"
proof -
  from assms have "0 < real M + real m" by simp
  with assms(2) show ?thesis
    by (simp add: light_exact_def sat_exact_def field_simps)
qed

lemma sat_exact_high:
  assumes "m < M" and "M \<le> 255" and "255 \<le> M + m"
  shows "sat_exact M m * (510 - real M - real m) = real M - real m"
proof (cases "255 < M + m")
  case True
  from assms have "510 - real M - real m \<noteq> 0" by simp
  with True show ?thesis by (simp add: sat_exact_def)
next
  case False
  with assms(3) have "M + m = 255" by simp
  then have e: "real M + real m = 255" by linarith
  then have t: "510 - real M - real m = real M + real m" by linarith
  from e have n: "real M + real m \<noteq> 0" by simp
  from False have "sat_exact M m = (real M - real m) / (real M + real m)"
    by (simp add: sat_exact_def)
  then show ?thesis unfolding t using n by simp
qed

lemma pq_exact_high:
  assumes "m < M" and "M \<le> 255" and "255 \<le> M + m"
  shows "light_exact M m + sat_exact M m - light_exact M m * sat_exact M m = real M / 255"
proof -
  have "light_exact M m + sat_exact M m - light_exact M m * sat_exact M m
      = (real M + real m + sat_exact M m * (510 - real M - real m)) / 510"
    by (simp add: light_exact_def field_simps)
  also have "\<dots> = (real M + real m + (real M - real m)) / 510"
    by (simp only: sat_exact_high [OF assms])
  also have "\<dots> = real M / 255" by simp
  finally show ?thesis .
qed

subsection \<open>The weights at the exact hue\<close>

lemma ramp_rise: "0 \<le> t \<Longrightarrow> t \<le> 1 / 6 \<Longrightarrow> ramp t = 6 * t"
  by (simp add: ramp_def max_def min_def)

lemma ramp_top: "1 / 6 \<le> t \<Longrightarrow> t \<le> 1 / 2 \<Longrightarrow> ramp t = 1"
  by (simp add: ramp_def max_def min_def)

lemma ramp_fall: "1 / 2 \<le> t \<Longrightarrow> t \<le> 2 / 3 \<Longrightarrow> ramp t = 4 - 6 * t"
  by (simp add: ramp_def max_def min_def)

text \<open>
  The three weights of a hue \<open>h\<close> in the sector that starts at \<open>k / 6\<close>, at the distance
  \<open>x / 6\<close> from its start (\<open>up\<close>) or before it (\<open>down\<close>).
\<close>

lemma sector0_up:
  assumes "6 * h = x" and "0 \<le> x" and "x \<le> 1"
  shows "ramp3 (h + 1 / 3) = 1" and "ramp3 h = x" and "ramp3 (h - 1 / 3) = 0"
proof -
  from assms have h: "0 \<le> h" "h \<le> 1 / 6" by linarith+
  from h show "ramp3 (h + 1 / 3) = 1" by (simp add: ramp3_mid ramp_top)
  from h assms(1) show "ramp3 h = x" by (simp add: ramp3_mid ramp_rise)
  from h show "ramp3 (h - 1 / 3) = 0" by (simp add: ramp3_left ramp_zero_right)
qed

lemma sector6_down:
  assumes "6 * h = 6 - x" and "0 < x" and "x \<le> 1"
  shows "ramp3 (h + 1 / 3) = 1" and "ramp3 h = 0" and "ramp3 (h - 1 / 3) = x"
proof -
  from assms have h: "5 / 6 \<le> h" "h < 1" by linarith+
  from h show "ramp3 (h + 1 / 3) = 1" by (simp add: ramp3_right ramp_top)
  from h show "ramp3 h = 0" by (simp add: ramp3_mid ramp_zero_right)
  from h have "ramp3 (h - 1 / 3) = 4 - 6 * (h - 1 / 3)" by (simp add: ramp3_mid ramp_fall)
  with assms(1) show "ramp3 (h - 1 / 3) = x" by simp
qed

lemma sector2_up:
  assumes "6 * h = x + 2" and "0 \<le> x" and "x \<le> 1"
  shows "ramp3 (h + 1 / 3) = 0" and "ramp3 h = 1" and "ramp3 (h - 1 / 3) = x"
proof -
  from assms have h: "1 / 3 \<le> h" "h \<le> 1 / 2" by linarith+
  from h show "ramp3 (h + 1 / 3) = 0" by (simp add: ramp3_mid ramp_zero_right)
  from h show "ramp3 h = 1" by (simp add: ramp3_mid ramp_top)
  from h have "ramp3 (h - 1 / 3) = 6 * (h - 1 / 3)" by (simp add: ramp3_mid ramp_rise)
  with assms(1) show "ramp3 (h - 1 / 3) = x" by simp
qed

lemma sector2_down:
  assumes "6 * h = 2 - x" and "0 < x" and "x \<le> 1"
  shows "ramp3 (h + 1 / 3) = x" and "ramp3 h = 1" and "ramp3 (h - 1 / 3) = 0"
proof -
  from assms have h: "1 / 6 \<le> h" "h < 1 / 3" by linarith+
  from h have "ramp3 (h + 1 / 3) = 4 - 6 * (h + 1 / 3)" by (simp add: ramp3_mid ramp_fall)
  with assms(1) show "ramp3 (h + 1 / 3) = x" by simp
  from h show "ramp3 h = 1" by (simp add: ramp3_mid ramp_top)
  from h show "ramp3 (h - 1 / 3) = 0" by (simp add: ramp3_left ramp_zero_right)
qed

lemma sector4_up:
  assumes "6 * h = x + 4" and "0 \<le> x" and "x \<le> 1"
  shows "ramp3 (h + 1 / 3) = x" and "ramp3 h = 0" and "ramp3 (h - 1 / 3) = 1"
proof -
  from assms have h: "2 / 3 \<le> h" "h \<le> 5 / 6" by linarith+
  show "ramp3 (h + 1 / 3) = x"
  proof (cases "x = 0")
    case True
    with assms(1) have "h + 1 / 3 = 1" by linarith
    with True show ?thesis by (simp add: ramp3_mid ramp_zero_right)
  next
    case False
    with assms have "1 < h + 1 / 3" by linarith
    with h have "ramp3 (h + 1 / 3) = 6 * (h + 1 / 3 - 1)" by (simp add: ramp3_right ramp_rise)
    with assms(1) show ?thesis by simp
  qed
  from h show "ramp3 h = 0" by (simp add: ramp3_mid ramp_zero_right)
  from h show "ramp3 (h - 1 / 3) = 1" by (simp add: ramp3_mid ramp_top)
qed

lemma sector4_down:
  assumes "6 * h = 4 - x" and "0 < x" and "x \<le> 1"
  shows "ramp3 (h + 1 / 3) = 0" and "ramp3 h = x" and "ramp3 (h - 1 / 3) = 1"
proof -
  from assms have h: "1 / 2 \<le> h" "h < 2 / 3" by linarith+
  from h show "ramp3 (h + 1 / 3) = 0" by (simp add: ramp3_mid ramp_zero_right)
  from h have "ramp3 h = 4 - 6 * h" by (simp add: ramp3_mid ramp_fall)
  with assms(1) show "ramp3 h = x" by simp
  from h show "ramp3 (h - 1 / 3) = 1" by (simp add: ramp3_mid ramp_top)
qed

text \<open>
  With the exact hue, the three weights give back the three channels: the smallest channel
  plus the chroma times the weight.
\<close>

lemma channels_exact:
  assumes M: "M = max R (max G B)" and m: "m = min R (min G B)" and mM: "m < M"
  shows "real m + (real M - real m) * ramp3 (hue_exact R G B + 1 / 3) = real R
    \<and> real m + (real M - real m) * ramp3 (hue_exact R G B) = real G
    \<and> real m + (real M - real m) * ramp3 (hue_exact R G B - 1 / 3) = real B"
proof -
  define D where "D = real M - real m"
  have D: "0 < D" using mM by (simp add: D_def)
  have r: "m \<le> R" "R \<le> M" "m \<le> G" "G \<le> M" "m \<le> B" "B \<le> M"
    by (simp_all add: M m)
  note hc = hue_exact_cases [OF M m, folded D_def]
  consider (r1) "M = R" "G < B" | (r2) "M = R" "\<not> G < B"
    | (g1) "M \<noteq> R" "M = G" "R \<le> B" | (g2) "M \<noteq> R" "M = G" "B < R"
    | (b1) "M \<noteq> R" "M \<noteq> G" "G \<le> R" | (b2) "M \<noteq> R" "M \<noteq> G" "R < G"
    by linarith
  then show ?thesis
  proof cases
    case r1
    have mG: "m = G" using r1 M m by (simp add: min_def max_def split: if_splits)
    define x where "x = (real B - real G) / D"
    have x: "0 < x" "x \<le> 1" using r1 r D by (simp_all add: x_def D_def field_simps)
    have Dx: "D * x = real B - real G" using D by (simp add: x_def)
    have "(real G - real B) / D = - x" by (simp add: x_def minus_divide_left)
    then have h: "6 * hue_exact R G B = 6 - x"
      unfolding hc if_P [OF r1(1)] if_P [OF r1(2)] by simp
    note s = sector6_down [OF h x]
    show ?thesis unfolding s D_def [symmetric] using Dx r1(1) mG by (simp add: D_def)
  next
    case r2
    have mB: "m = B" using r2 M m by (simp add: min_def max_def split: if_splits)
    define x where "x = (real G - real B) / D"
    have x: "0 \<le> x" "x \<le> 1" using r2 r D by (simp_all add: x_def D_def field_simps)
    have Dx: "D * x = real G - real B" using D by (simp add: x_def)
    have "(real G - real B) / D = x" by (simp add: x_def)
    then have h: "6 * hue_exact R G B = x"
      unfolding hc if_P [OF r2(1)] if_not_P [OF r2(2)] by simp
    note s = sector0_up [OF h x]
    show ?thesis unfolding s D_def [symmetric] using Dx r2(1) mB by (simp add: D_def)
  next
    case g1
    have mR: "m = R" using g1 M m by (simp add: min_def max_def split: if_splits)
    define x where "x = (real B - real R) / D"
    have x: "0 \<le> x" "x \<le> 1" using g1 r D by (simp_all add: x_def D_def field_simps)
    have Dx: "D * x = real B - real R" using D by (simp add: x_def)
    have "(real B - real R) / D = x" by (simp add: x_def)
    then have h: "6 * hue_exact R G B = x + 2"
      unfolding hc if_not_P [OF g1(1)] if_P [OF g1(2)] by simp
    note s = sector2_up [OF h x]
    show ?thesis unfolding s D_def [symmetric] using Dx g1(2) mR by (simp add: D_def)
  next
    case g2
    have mB: "m = B" using g2 M m by (simp add: min_def max_def split: if_splits)
    define x where "x = (real R - real B) / D"
    have x: "0 < x" "x \<le> 1" using g2 r D by (simp_all add: x_def D_def field_simps)
    have Dx: "D * x = real R - real B" using D by (simp add: x_def)
    have "(real B - real R) / D = - x" by (simp add: x_def minus_divide_left)
    then have h: "6 * hue_exact R G B = 2 - x"
      unfolding hc if_not_P [OF g2(1)] if_P [OF g2(2)] by simp
    note s = sector2_down [OF h x]
    show ?thesis unfolding s D_def [symmetric] using Dx g2(2) mB by (simp add: D_def)
  next
    case b1
    have MB: "M = B" using b1 M by (simp add: max_def split: if_splits)
    have mG: "m = G" using b1 MB M m by (simp add: min_def max_def split: if_splits)
    define x where "x = (real R - real G) / D"
    have x: "0 \<le> x" "x \<le> 1" using b1 r D by (simp_all add: x_def D_def field_simps)
    have Dx: "D * x = real R - real G" using D by (simp add: x_def)
    have "(real R - real G) / D = x" by (simp add: x_def)
    then have h: "6 * hue_exact R G B = x + 4"
      unfolding hc if_not_P [OF b1(1)] if_not_P [OF b1(2)] by simp
    note s = sector4_up [OF h x]
    show ?thesis unfolding s D_def [symmetric] using Dx MB mG by (simp add: D_def)
  next
    case b2
    have MB: "M = B" using b2 M by (simp add: max_def split: if_splits)
    have mR: "m = R" using b2 MB M m by (simp add: min_def max_def split: if_splits)
    define x where "x = (real G - real R) / D"
    have x: "0 < x" "x \<le> 1" using b2 r D by (simp_all add: x_def D_def field_simps)
    have Dx: "D * x = real G - real R" using D by (simp add: x_def)
    have "(real R - real G) / D = - x" by (simp add: x_def minus_divide_left)
    then have h: "6 * hue_exact R G B = 4 - x"
      unfolding hc if_not_P [OF b2(1)] if_not_P [OF b2(2)] by simp
    note s = sector4_down [OF h x]
    show ?thesis unfolding s D_def [symmetric] using Dx MB mR by (simp add: D_def)
  qed
qed

subsection \<open>Back to bytes\<close>

lemma round_channel:
  assumes "near e v (real n / 255)" and "e \<le> 1 / 1000" and "n \<le> 255"
  shows "math_round (js_mul v 255) = real n"
proof -
  note d = delta_bounds
  from assms(1) have e0: "0 \<le> e" unfolding near_def by linarith
  from assms(3) have n: "real n \<le> 255" by simp
  have "near (255 * e + delta) (js_mul v 255) (real n / 255 * 255)"
    using n e0 assms(2) by (intro near_js_mul_const [OF assms(1)]) simp_all
  then have "near (255 * e + delta) (js_mul v 255) (real n)" by simp
  from nearD [OF this] assms(2) d
  have "real n \<le> js_mul v 255 + 1 / 2" "js_mul v 255 + 1 / 2 < real n + 1" by linarith+
  then have "of_int (int n) \<le> js_mul v 255 + 1 / 2" "js_mul v 255 + 1 / 2 < of_int (int n) + 1"
    by simp_all
  then have "\<lfloor>js_mul v 255 + 1 / 2\<rfloor> = int n" by (rule floor_unique)
  then show ?thesis by (simp add: math_round_def)
qed

lemma hslToRgb_chromatic:
  assumes "s \<noteq> 0"
  shows "hslToRgb h s l =
    (math_round (js_mul (hue2rgb
        (js_sub (js_mul 2 l)
           (if l < 1 / 2 then js_mul l (js_add 1 s) else js_sub (js_add l s) (js_mul l s)))
        (if l < 1 / 2 then js_mul l (js_add 1 s) else js_sub (js_add l s) (js_mul l s))
        (js_add h (js_div 1 3))) 255),
     math_round (js_mul (hue2rgb
        (js_sub (js_mul 2 l)
           (if l < 1 / 2 then js_mul l (js_add 1 s) else js_sub (js_add l s) (js_mul l s)))
        (if l < 1 / 2 then js_mul l (js_add 1 s) else js_sub (js_add l s) (js_mul l s))
        h) 255),
     math_round (js_mul (hue2rgb
        (js_sub (js_mul 2 l)
           (if l < 1 / 2 then js_mul l (js_add 1 s) else js_sub (js_add l s) (js_mul l s)))
        (if l < 1 / 2 then js_mul l (js_add 1 s) else js_sub (js_add l s) (js_mul l s))
        (js_sub h (js_div 1 3))) 255))"
  using assms by (simp add: hslToRgb_def Let_def)

lemma hslToRgb_grey: "hslToRgb h 0 l =
    (math_round (js_mul l 255), math_round (js_mul l 255), math_round (js_mul l 255))"
  by (simp add: hslToRgb_def)

lemma delta_scaled: "1000000 * delta \<le> 1 / 1000"
  by (simp add: delta_def)

lemma roundtrip_chromatic:
  assumes "R \<le> 255" and "G \<le> 255" and "B \<le> 255"
    and M: "M = max R (max G B)" and m: "m = min R (min G B)" and mM: "m < M"
    and rgb: "rgbToHsl (real R) (real G) (real B) = (h, s, l)"
  shows "hslToRgb h s l = (real R, real G, real B)"
proof -
  note d = delta_bounds delta_scaled
  have M255: "M \<le> 255" "m \<le> 255" using assms(1-3) by (simp_all add: M m)
  from rgbToHsl_near [OF assms(1-3) M m mM] rgb
  have hn: "near (300 * delta) h (hue_exact R G B)"
    and sn: "near (2000 * delta) s (sat_exact M m)"
    and ln: "near (3 * delta) l (light_exact M m)"
    by simp_all
  note S = sat_exact_bounds [OF M255(1) mM]
  note L = light_exact_bounds [OF M255]
  note H = hue_exact_bounds [OF M m mM]
  from nearD(1) [OF sn] S(1) d have s0: "s \<noteq> 0" by linarith
  have le: "real M + real m = 510 * light_exact M m" by (simp add: light_exact_def)
  let ?q = "if l < 1 / 2 then js_mul l (js_add 1 s) else js_sub (js_add l s) (js_mul l s)"
  let ?p = "js_sub (js_mul 2 l) ?q"
  let ?q' = "if l < 1 / 2 then light_exact M m * (1 + sat_exact M m)
    else light_exact M m + sat_exact M m - light_exact M m * sat_exact M m"
  have ln': "near (2000 * delta) l (light_exact M m)"
    by (rule near_weaken [OF ln]) (use d in simp)
  from S have S0: "0 \<le> sat_exact M m" by linarith
  have e: "2000 * delta \<le> 1 / 1000" using d by linarith
  note pq = pq_near [OF ln' sn L S0 S(2) e]
  have q': "?q' = real M / 255"
  proof (cases "l < 1 / 2")
    case True
    with nearD(1) [OF ln] d le have "real M + real m < 256" by linarith
    then have "M + m < 256" by linarith
    then have "M + m \<le> 255" by simp
    from pq_exact_low [OF mM this] True show ?thesis by simp
  next
    case False
    with nearD(2) [OF ln] d le have "254 < real M + real m" by linarith
    then have "254 < M + m" by linarith
    then have "255 \<le> M + m" by simp
    from pq_exact_high [OF mM M255(1) this] False show ?thesis by simp
  qed
  have p': "2 * light_exact M m - ?q' = real m / 255"
    unfolding q' by (simp add: light_exact_def field_simps)
  have qn: "near (20000 * delta) ?q (real M / 255)"
    using pq(1) unfolding q' by (rule near_weaken) (use d in simp)
  have pn: "near (20000 * delta) ?p (real m / 255)"
    using pq(2) unfolding p' by (rule near_weaken) (use d in simp)
  have b: "0 \<le> real m / 255" "real m / 255 \<le> 1" "0 \<le> real M / 255" "real M / 255 \<le> 1"
    using M255 by simp_all
  have e2: "20000 * delta \<le> 1 / 100" using d by linarith
  have t1: "near (20000 * delta) (js_add h (js_div 1 3)) (hue_exact R G B + 1 / 3)"
    using H d by (intro near_weaken [OF near_js_add [OF hn near_third]]) simp_all
  have t2: "near (20000 * delta) h (hue_exact R G B)"
    by (rule near_weaken [OF hn]) (use d in simp)
  have t3: "near (20000 * delta) (js_sub h (js_div 1 3)) (hue_exact R G B - 1 / 3)"
    using H d by (intro near_weaken [OF near_js_sub [OF hn near_third]]) simp_all
  have w: "real m / 255 + (real M / 255 - real m / 255) * x = (real m + (real M - real m) * x) / 255"
    for x by (simp add: field_simps)
  note ce = channels_exact [OF M m mM]
  have c1: "near (200 * delta + 9 * (20000 * delta)) (hue2rgb ?p ?q (js_add h (js_div 1 3)))
      (real R / 255)"
    using hue2rgb_near [OF pn qn t1 b _ _ e2] H ce by (simp add: w)
  have c2: "near (200 * delta + 9 * (20000 * delta)) (hue2rgb ?p ?q h) (real G / 255)"
    using hue2rgb_near [OF pn qn t2 b _ _ e2] H ce by (simp add: w)
  have c3: "near (200 * delta + 9 * (20000 * delta)) (hue2rgb ?p ?q (js_sub h (js_div 1 3)))
      (real B / 255)"
    using hue2rgb_near [OF pn qn t3 b _ _ e2] H ce by (simp add: w)
  have e3: "200 * delta + 9 * (20000 * delta) \<le> 1 / 1000" using d by linarith
  show ?thesis
    unfolding hslToRgb_chromatic [OF s0]
    by (simp only: round_channel [OF c1 e3 assms(1)] round_channel [OF c2 e3 assms(2)]
        round_channel [OF c3 e3 assms(3)])
qed

lemma roundtrip_grey:
  assumes "R \<le> 255" and rgb: "rgbToHsl (real R) (real R) (real R) = (h, s, l)"
  shows "hslToRgb h s l = (real R, real R, real R)"
proof -
  from rgbToHsl_grey_near [OF assms(1)] rgb
  have s: "s = 0" and ln: "near (3 * delta) l (real R / 255)" by simp_all
  have "3 * delta \<le> 1 / 1000" using delta_bounds by linarith
  from round_channel [OF ln this assms(1)] show ?thesis
    unfolding s hslToRgb_grey by simp
qed

text \<open>On bytes the two conversions are inverse to each other, without any rounding loss.\<close>

lemma hslToRgb_rgbToHsl:
  assumes "R \<le> 255" and "G \<le> 255" and "B \<le> 255"
    and rgb: "rgbToHsl (real R) (real G) (real B) = (h, s, l)"
  shows "hslToRgb h s l = (real R, real G, real B)"
proof (cases "min R (min G B) < max R (max G B)")
  case True
  from roundtrip_chromatic [OF assms(1-3) refl refl True rgb] show ?thesis .
next
  case False
  then have "max R (max G B) \<le> min R (min G B)" by simp
  then have "G = R" "B = R" by (simp_all add: max_def min_def split: if_splits)
  with roundtrip_grey [OF assms(1)] rgb show ?thesis by simp
qed

subsection \<open>Integers are binary64 values\<close>

lemma round_even_of_int: "round_even (of_int k) = k"
  by (simp add: round_even_def)

lemma expo_nonneg: "1 \<le> \<bar>x\<bar> \<Longrightarrow> 0 \<le> expo x"
proof -
  assume a: "1 \<le> \<bar>x\<bar>"
  then have "0 < \<lfloor>\<bar>x\<bar>\<rfloor>" by simp
  then have "1 \<le> bitlen \<lfloor>\<bar>x\<bar>\<rfloor>" by (simp add: bitlen_alt_def)
  with a show ?thesis by (simp add: expo_def)
qed

lemma fl_nat:
  assumes "a \<le> 255"
  shows "fl (real a) = real a"
proof (cases "a = 0")
  case True
  then show ?thesis by (simp add: fl_def)
next
  case False
  define x where "x = real a"
  from False assms have x: "1 \<le> \<bar>x\<bar>" "\<bar>x\<bar> \<le> 255" "x \<noteq> 0" by (simp_all add: x_def)
  from expo_lower [OF x(3)] x(2) have "pow2 (expo x) < pow2 9" by (simp add: pow2_def)
  then have e9: "expo x < 9" by (rule pow2_less_imp)
  from expo_nonneg [OF x(1)] have e0: "0 \<le> expo x" .
  define n where "n = nat (52 - expo x)"
  from e0 e9 have u: "pow2 (max (expo x) (- 1022) - 52) = 1 / 2 ^ n"
    by (simp add: pow2_def n_def)
  have "x / (1 / 2 ^ n) = of_int (int a * 2 ^ n)" by (simp add: x_def)
  then have "round_even (x / (1 / 2 ^ n)) = int a * 2 ^ n"
    by (simp only: round_even_of_int)
  with x(3) u show ?thesis unfolding x_def [symmetric] by (simp add: fl_def Let_def x_def)
qed

lemma round_range:
  assumes "- 1 / 1000 \<le> v" and "v \<le> 1 + 1 / 1000"
  shows "\<exists>n\<le>255. math_round (js_mul v 255) = real n"
proof -
  note d = delta_bounds
  from assms have "- 256 \<le> v * 255" "v * 255 \<le> 256" by linarith+
  from nearD [OF near_fl [OF this]] assms d
  have b: "0 \<le> js_mul v 255 + 1 / 2" "js_mul v 255 + 1 / 2 < 256"
    unfolding js_mul_def by linarith+
  define k where "k = \<lfloor>js_mul v 255 + 1 / 2\<rfloor>"
  from b have k: "0 \<le> k" "k < 256" unfolding k_def by (simp_all add: floor_less_iff)
  then have "nat k \<le> 255" "real (nat k) = of_int k" by simp_all
  then show ?thesis unfolding math_round_def k_def [symmetric] by metis
qed

lemma convex_bounds:
  fixes p q w :: real
  assumes "0 \<le> w" "w \<le> 1" "lo \<le> p" "p \<le> hi" "lo \<le> q" "q \<le> hi"
  shows "lo \<le> p + (q - p) * w" and "p + (q - p) * w \<le> hi"
proof -
  have "p + (q - p) * w - lo = (1 - w) * (p - lo) + w * (q - lo)" by (simp add: algebra_simps)
  moreover have "0 \<le> (1 - w) * (p - lo)" "0 \<le> w * (q - lo)" using assms by simp_all
  ultimately show "lo \<le> p + (q - p) * w" by linarith
  have "hi - (p + (q - p) * w) = (1 - w) * (hi - p) + w * (hi - q)" by (simp add: algebra_simps)
  moreover have "0 \<le> (1 - w) * (hi - p)" "0 \<le> w * (hi - q)" using assms by simp_all
  ultimately show "p + (q - p) * w \<le> hi" by linarith
qed

lemma hue2rgb_range:
  assumes p: "- 1 / 2000 \<le> p" "p \<le> 1 + 1 / 2000" and q: "- 1 / 2000 \<le> q" "q \<le> 1 + 1 / 2000"
    and t0: "- 2 / 5 \<le> t0" "t0 \<le> 7 / 5"
  shows "- 1 / 1000 \<le> hue2rgb p q t0" and "hue2rgb p q t0 \<le> 1 + 1 / 1000"
proof -
  note d = delta_bounds
  from p q have b: "- 2 \<le> p" "p \<le> 2" "- 2 \<le> q" "q \<le> 2" by linarith+
  note n = nearD [OF hue2rgb_near_ramp3 [OF b t0]]
  note c = convex_bounds [OF ramp3_bounds [of t0] p(1,2) q(1,2)]
  from n(1) c(1) d show "- 1 / 1000 \<le> hue2rgb p q t0" by linarith
  from n(2) c(2) d show "hue2rgb p q t0 \<le> 1 + 1 / 1000" by linarith
qed

subsection \<open>The range of hslToRgb\<close>

lemma pq_exact_bounds:
  assumes ln: "near e l l'" and l': "0 \<le> l'" "l' \<le> 1" and s': "0 \<le> s'" "s' \<le> 1"
  shows "0 \<le> (if l < 1 / 2 then l' * (1 + s') else l' + s' - l' * s')"
    and "(if l < 1 / 2 then l' * (1 + s') else l' + s' - l' * s') \<le> 1 + 2 * e"
    and "- (2 * e) \<le> 2 * l' - (if l < 1 / 2 then l' * (1 + s') else l' + s' - l' * s')"
    and "2 * l' - (if l < 1 / 2 then l' * (1 + s') else l' + s' - l' * s') \<le> 1"
proof -
  note ls = mult_unit_bounds [OF l' s']
  from l' have l1: "0 \<le> 1 - l'" "1 - l' \<le> 1" by linarith+
  from mult_unit_bounds(4) [OF s' l1] have sl: "s' - l' * s' \<le> 1 - l'"
    by (simp add: algebra_simps)
  have d: "l' * (1 + s') = l' + l' * s'" by (simp add: distrib_left)
  from ln have e0: "0 \<le> e" unfolding near_def by linarith
  have "0 \<le> (if l < 1 / 2 then l' * (1 + s') else l' + s' - l' * s')
    \<and> (if l < 1 / 2 then l' * (1 + s') else l' + s' - l' * s') \<le> 1 + 2 * e
    \<and> - (2 * e) \<le> 2 * l' - (if l < 1 / 2 then l' * (1 + s') else l' + s' - l' * s')
    \<and> 2 * l' - (if l < 1 / 2 then l' * (1 + s') else l' + s' - l' * s') \<le> 1"
  proof (cases "l < 1 / 2")
    case True
    with nearD(1) [OF ln] have "l' < 1 / 2 + e" by linarith
    with ls l' e0 show ?thesis unfolding if_P [OF True] d by linarith
  next
    case False
    with nearD(2) [OF ln] have "1 / 2 - e \<le> l'" by linarith
    with ls sl l' s' e0 show ?thesis unfolding if_not_P [OF False] by linarith
  qed
  then show "0 \<le> (if l < 1 / 2 then l' * (1 + s') else l' + s' - l' * s')"
    and "(if l < 1 / 2 then l' * (1 + s') else l' + s' - l' * s') \<le> 1 + 2 * e"
    and "- (2 * e) \<le> 2 * l' - (if l < 1 / 2 then l' * (1 + s') else l' + s' - l' * s')"
    and "2 * l' - (if l < 1 / 2 then l' * (1 + s') else l' + s' - l' * s') \<le> 1"
    by simp_all
qed

text \<open>
  For hue, saturation and lightness that are close to values between 0 and 1, every channel
  that \<^verbatim>\<open>hslToRgb\<close> returns is an integer between 0 and 255.
\<close>

lemma hslToRgb_in_range:
  assumes hn: "near e h h'" and h': "0 \<le> h'" "h' \<le> 1"
    and sn: "near e s s'" and s': "0 \<le> s'" "s' \<le> 1"
    and ln: "near e l l'" and l': "0 \<le> l'" "l' \<le> 1"
    and e: "e \<le> 1 / 100000"
  shows "\<exists>a b c. a \<le> 255 \<and> b \<le> 255 \<and> c \<le> 255 \<and> hslToRgb h s l = (real a, real b, real c)"
proof (cases "s = 0")
  case True
  from nearD [OF ln] l' e have "- 1 / 1000 \<le> l" "l \<le> 1 + 1 / 1000" by linarith+
  from round_range [OF this] obtain n where "n \<le> 255" "math_round (js_mul l 255) = real n"
    by blast
  then show ?thesis unfolding True hslToRgb_grey by blast
next
  case False
  note d = delta_bounds
  let ?q = "if l < 1 / 2 then js_mul l (js_add 1 s) else js_sub (js_add l s) (js_mul l s)"
  let ?p = "js_sub (js_mul 2 l) ?q"
  from e have e': "e \<le> 1 / 1000" by linarith
  note pq = pq_near [OF ln sn l' s' e']
  note ex = pq_exact_bounds [OF ln l' s']
  from nearD [OF pq(1)] ex(1,2) e d have q: "- 1 / 2000 \<le> ?q" "?q \<le> 1 + 1 / 2000"
    by linarith+
  from nearD [OF pq(2)] ex(3,4) e d have p: "- 1 / 2000 \<le> ?p" "?p \<le> 1 + 1 / 2000"
    by linarith+
  from hn have e0: "0 \<le> e" unfolding near_def by linarith
  have "near (e + delta + delta) (js_add h (js_div 1 3)) (h' + 1 / 3)"
    using h' e e0 d by (intro near_js_add [OF hn near_third]) simp_all
  from nearD [OF this] h' e d
  have t1: "- 2 / 5 \<le> js_add h (js_div 1 3)" "js_add h (js_div 1 3) \<le> 7 / 5" by linarith+
  from nearD [OF hn] h' e have t2: "- 2 / 5 \<le> h" "h \<le> 7 / 5" by linarith+
  have "near (e + delta + delta) (js_sub h (js_div 1 3)) (h' - 1 / 3)"
    using h' e e0 d by (intro near_js_sub [OF hn near_third]) simp_all
  from nearD [OF this] h' e d
  have t3: "- 2 / 5 \<le> js_sub h (js_div 1 3)" "js_sub h (js_div 1 3) \<le> 7 / 5" by linarith+
  from round_range [OF hue2rgb_range [OF p q t1]] obtain a where
    a: "a \<le> 255" "math_round (js_mul (hue2rgb ?p ?q (js_add h (js_div 1 3))) 255) = real a"
    by blast
  from round_range [OF hue2rgb_range [OF p q t2]] obtain b where
    b: "b \<le> 255" "math_round (js_mul (hue2rgb ?p ?q h) 255) = real b"
    by blast
  from round_range [OF hue2rgb_range [OF p q t3]] obtain c where
    c: "c \<le> 255" "math_round (js_mul (hue2rgb ?p ?q (js_sub h (js_div 1 3))) 255) = real c"
    by blast
  show ?thesis unfolding hslToRgb_chromatic [OF False] a(2) b(2) c(2)
    using a(1) b(1) c(1) by blast
qed

lemma rgbToHsl_ranges:
  assumes "R \<le> 255" and "G \<le> 255" and "B \<le> 255"
    and rgb: "rgbToHsl (real R) (real G) (real B) = (h, s, l)"
  shows "\<exists>h' s' l'. near (2000 * delta) h h' \<and> 0 \<le> h' \<and> h' \<le> 1
    \<and> near (2000 * delta) s s' \<and> 0 \<le> s' \<and> s' \<le> 1
    \<and> near (2000 * delta) l l' \<and> 0 \<le> l' \<and> l' \<le> 1"
proof (cases "min R (min G B) < max R (max G B)")
  case True
  note d = delta_bounds
  have M255: "max R (max G B) \<le> 255" "min R (min G B) \<le> 255" using assms(1-3) by simp_all
  from rgbToHsl_near [OF assms(1-3) refl refl True] rgb
  have hn: "near (300 * delta) h (hue_exact R G B)"
    and sn: "near (2000 * delta) s (sat_exact (max R (max G B)) (min R (min G B)))"
    and ln: "near (3 * delta) l (light_exact (max R (max G B)) (min R (min G B)))"
    by simp_all
  note S = sat_exact_bounds [OF M255(1) True]
  note L = light_exact_bounds [OF M255]
  note H = hue_exact_bounds [OF refl refl True]
  have "near (2000 * delta) h (hue_exact R G B)" by (rule near_weaken [OF hn]) (use d in simp)
  moreover have "near (2000 * delta) l (light_exact (max R (max G B)) (min R (min G B)))"
    by (rule near_weaken [OF ln]) (use d in simp)
  moreover from S have "0 \<le> sat_exact (max R (max G B)) (min R (min G B))" by linarith
  ultimately show ?thesis using sn S(2) L H by blast
next
  case False
  note d = delta_bounds
  then have "max R (max G B) \<le> min R (min G B)" using False by simp
  then have eq: "G = R" "B = R" by (simp_all add: max_def min_def split: if_splits)
  from rgbToHsl_grey_near [OF assms(1)] rgb eq
  have h: "h = 0" and s: "s = 0" and ln: "near (3 * delta) l (real R / 255)" by simp_all
  have "near (2000 * delta) l (real R / 255)" by (rule near_weaken [OF ln]) (use d in simp)
  moreover have "near (2000 * delta) (0::real) 0" using d by (simp add: near_def)
  moreover have "0 \<le> real R / 255" "real R / 255 \<le> 1" using assms(1) by simp_all
  ultimately show ?thesis unfolding h s by (metis zero_le_one order_refl)
qed

subsection \<open>Bytes as numbers\<close>

lemma unat_byte: "unat (v :: byte) \<le> 255"
proof -
  have "unat v < 2 ^ LENGTH(8)" by (rule unsigned_less)
  then show ?thesis by simp
qed

lemma byte_num_of_nat: "a \<le> 255 \<Longrightarrow> byte_num (of_nat a) = real a"
  by (simp add: byte_num_def unat_of_nat)

lemma toUint8Clamp_nat:
  assumes "a \<le> 255"
  shows "toUint8Clamp (real a) = of_nat a"
proof -
  have "round_even (real a) = int a"
    using round_even_of_int [of "int a"] by simp
  with assms show ?thesis by (auto simp: toUint8Clamp_def)
qed

lemma lerp_full:
  assumes "a \<le> 255"
  shows "lerp r (real a) 1 = real a"
proof -
  have z: "fl 0 = 0" by (simp add: fl_def)
  show ?thesis by (simp add: lerp_def js_add_def js_sub_def js_mul_def z fl_nat [OF assms])
qed

lemma alphaFactor_255: "js_div (byte_num 255) 255 = 1"
  using fl_nat [of 1] by (simp add: js_div_def byte_num_def)

text \<open>The loop body under mask alpha 255.\<close>

lemma paintPixel_full:
  assumes tgt: "rgbToHsl (byte_num rT) (byte_num gT) (byte_num bT) = (hT, sT, lT)"
    and src: "rgbToHsl (byte_num (red px)) (byte_num (green px)) (byte_num (blue px)) = (h, s, l)"
  shows "\<exists>a b c. a \<le> 255 \<and> b \<le> 255 \<and> c \<le> 255 \<and> hslToRgb hT sT l = (real a, real b, real c)
    \<and> paintPixel hT sT px 255 = px\<lparr>red := of_nat a, green := of_nat b, blue := of_nat c\<rparr>"
proof -
  note d = delta_bounds delta_scaled
  from rgbToHsl_ranges [OF unat_byte unat_byte unat_byte tgt [unfolded byte_num_def]]
  obtain hT' sT' where t: "near (2000 * delta) hT hT'" "0 \<le> hT'" "hT' \<le> 1"
    "near (2000 * delta) sT sT'" "0 \<le> sT'" "sT' \<le> 1"
    by blast
  from rgbToHsl_ranges [OF unat_byte unat_byte unat_byte src [unfolded byte_num_def]]
  obtain l' where l: "near (2000 * delta) l l'" "0 \<le> l'" "l' \<le> 1"
    by blast
  have e: "2000 * delta \<le> 1 / 100000" using d by linarith
  from hslToRgb_in_range [OF t l e] obtain a b c where
    abc: "a \<le> 255" "b \<le> 255" "c \<le> 255" "hslToRgb hT sT l = (real a, real b, real c)"
    by blast
  have "paintPixel hT sT px 255 = px\<lparr>red := of_nat a, green := of_nat b, blue := of_nat c\<rparr>"
    by (simp add: paintPixel_def src abc(4) alphaFactor_255 lerp_full abc(1-3) toUint8Clamp_nat)
  with abc show ?thesis by blast
qed

section \<open>The recolouring loop, pixel by pixel\<close>

lemma paintPixel_zero: "paintPixel hT sT px 0 = px"
  by (simp add: paintPixel_def)

lemma alpha_paintPixel: "alpha (paintPixel hT sT px a) = alpha px"
  by (simp add: paintPixel_def Let_def split: prod.splits)

lemma length_paintLoop: "length (paintLoop hT sT data maskData) = length data"
  by (induction hT sT data maskData rule: paintLoop.induct) simp_all

lemma paintLoop_nth:
  "i < length data \<Longrightarrow> i < length maskData \<Longrightarrow>
   paintLoop hT sT data maskData ! i = paintPixel hT sT (data ! i) (alpha (maskData ! i))"
proof (induction hT sT data maskData arbitrary: i rule: paintLoop.induct)
  case (3 hT sT px data m maskData)
  then show ?case by (cases i) simp_all
qed simp_all

lemma paintLoop_nth_beyond:
  "i < length data \<Longrightarrow> length maskData \<le> i \<Longrightarrow> paintLoop hT sT data maskData ! i = data ! i"
proof (induction hT sT data maskData arbitrary: i rule: paintLoop.induct)
  case (2 hT sT px data)
  then show ?case by (cases i) simp_all
next
  case (3 hT sT px data m maskData)
  then show ?case by (cases i) simp_all
qed simp_all

lemma alpha_paintLoop_nth:
  assumes "i < length data"
  shows "alpha (paintLoop hT sT data maskData ! i) = alpha (data ! i)"
proof (cases "i < length maskData")
  case True
  with assms show ?thesis by (simp add: paintLoop_nth alpha_paintPixel)
next
  case False
  with assms show ?thesis by (simp add: paintLoop_nth_beyond)
qed

section \<open>Drawing on a canvas and reading it\<close>

lemma nearest_exact: "0 < d \<Longrightarrow> nearest (d * n) d = n"
proof -
  assume d: "0 < d"
  have "2 * (d * n) + d = d + n * (2 * d)" by (simp add: algebra_simps)
  moreover from d have "(d + n * (2 * d)) div (2 * d) = n + d div (2 * d)"
    by (intro div_mult_self1) simp
  moreover from d have "d div (2 * d) = 0" by simp
  ultimately show ?thesis by (simp only: nearest_def add_0_right)
qed

lemma sourceOver_opaque:
  assumes "alpha src = 255"
  shows "sourceOver src dst = src"
proof -
  have n: "nearest (65025 * c) 65025 = c" for c by (rule nearest_exact) simp
  have a: "nearest 65025 255 = 255" by (simp add: nearest_def)
  from assms show ?thesis by (simp add: sourceOver_def n a)
qed

lemma sourceOver_clear:
  assumes "alpha src = 0" and "alpha dst \<noteq> 0"
  shows "sourceOver src dst = dst"
proof -
  from assms(2) have p: "0 < unat (alpha dst)" by (simp add: unat_gt_0)
  then have q: "0 < unat (alpha dst) * 255" by simp
  have n: "nearest (unat (alpha dst) * 255 * c) (unat (alpha dst) * 255) = c" for c
    by (rule nearest_exact [OF q])
  have a: "nearest (unat (alpha dst) * 255) 255 = unat (alpha dst)"
    using nearest_exact [of 255 "unat (alpha dst)"] by (simp add: mult.commute)
  from assms(1) p show ?thesis by (simp add: sourceOver_def n a)
qed

lemma length_composite: "length (composite src dst) = length dst"
  by (induction src dst rule: composite.induct) simp_all

lemma composite_opaque:
  "\<forall>p \<in> set src. alpha p = 255 \<Longrightarrow> length dst \<le> length src \<Longrightarrow>
   composite src dst = take (length dst) src"
  by (induction src dst rule: composite.induct) (simp_all add: sourceOver_opaque)

lemma wellformed_blankCanvas: "wellformed_canvas (blankCanvas w h)"
  by (simp add: wellformed_canvas_def blankCanvas_def)

lemma wellformed_drawImage: "wellformed_canvas c \<Longrightarrow> wellformed_canvas (drawImage B img w h c)"
  by (simp add: wellformed_canvas_def drawImage_def length_composite)

lemma wellformed_drawImage_blur:
  "wellformed_canvas c \<Longrightarrow> wellformed_canvas (drawImage_blur B img w h c)"
  by (simp add: wellformed_canvas_def drawImage_blur_def length_composite)

lemma getImageData_length:
  "getImageData B c sw sh = Inr data \<Longrightarrow> length data = sw * sh \<and> 0 < sw \<and> 0 < sh"
  by (auto simp: getImageData_def split: if_splits)

lemma getImageData_nth:
  "getImageData B c sw sh = Inr data \<Longrightarrow> i < length (cpixels c) \<Longrightarrow> i < sw * sh \<Longrightarrow>
   data ! i = cpixels c ! i"
  by (auto simp: getImageData_def nth_append split: if_splits)

lemma getImageData_whole:
  "wellformed_canvas c \<Longrightarrow> 0 < cwidth c \<Longrightarrow> 0 < cheight c \<Longrightarrow>
   getImageData B c (cwidth c) (cheight c) = Inr (cpixels c)"
  by (simp add: getImageData_def wellformed_canvas_def)

lemma getImageData_cases:
  "getImageData B c sw sh = Inl (IndexSizeError (sizeErrorMessage B)) \<and> (sw = 0 \<or> sh = 0)
   \<or> (\<exists>data. getImageData B c sw sh = Inr data \<and> 0 < sw \<and> 0 < sh)"
  by (simp add: getImageData_def)

lemma getImageData_same_size:
  "getImageData B c sw sh = Inr data \<Longrightarrow> \<exists>data'. getImageData B c' sw sh = Inr data'"
  by (auto simp: getImageData_def split: if_splits)

section \<open>What applyColor does\<close>

text \<open>
  With a picture, a mask and a canvas that is not empty, \<^verbatim>\<open>applyColor\<close> paints the source
  buffer under the alpha bytes that it reads from the mask canvas; \<open>hT\<close> and \<open>sT\<close> are the target
  hue and saturation that it computes before its loop.
\<close>

lemma sourceData_read:
  assumes "sourceData B img s \<noteq> []"
  shows "getImageData B
      (drawImage B img (of_nat (cwidth (mainCanvas s))) (of_nat (cheight (mainCanvas s)))
        (mainCanvas s))
      (cwidth (mainCanvas s)) (cheight (mainCanvas s)) = Inr (sourceData B img s)"
  using assms by (simp add: sourceData_def Let_def split: sum.splits)

lemma applyColor_masked:
  assumes "originalImage s = Some img" and "maskCanvas s = Some m"
    and "hexToRgb (colorPicker s) = (rT, gT, bT)"
    and "rgbToHsl (byte_num rT) (byte_num gT) (byte_num bT) = (hT, sT, lT)"
    and "sourceData B img s \<noteq> []"
  shows "\<exists>t maskData. applyColor B s = Inr t \<and> originalImage t = originalImage s
     \<and> maskCanvas t = maskCanvas s \<and> colorPicker t = colorPicker s
     \<and> cwidth (mainCanvas t) = cwidth (mainCanvas s)
     \<and> cheight (mainCanvas t) = cheight (mainCanvas s)
     \<and> getImageData B m (cwidth (mainCanvas s)) (cheight (mainCanvas s)) = Inr maskData
     \<and> length maskData = length (sourceData B img s)
     \<and> cpixels (mainCanvas t) = paintLoop hT sT (sourceData B img s) maskData"
proof -
  note r = sourceData_read [OF assms(5)]
  from getImageData_same_size [OF r] obtain maskData where
    m: "getImageData B m (cwidth (mainCanvas s)) (cheight (mainCanvas s)) = Inr maskData"
    by blast
  from getImageData_length [OF r] getImageData_length [OF m]
  have l: "length maskData = length (sourceData B img s)" by simp
  from assms(1-4) r m l show ?thesis
    by (simp add: applyColor_def setStatus_def putImageData_def drawImage_def Let_def)
qed

lemma applyColor_masked_ex:
  assumes "originalImage s = Some img" and "maskCanvas s = Some m"
    and "sourceData B img s \<noteq> []"
  shows "\<exists>t hT sT maskData. applyColor B s = Inr t
     \<and> getImageData B m (cwidth (mainCanvas s)) (cheight (mainCanvas s)) = Inr maskData
     \<and> length maskData = length (sourceData B img s)
     \<and> cpixels (mainCanvas t) = paintLoop hT sT (sourceData B img s) maskData"
proof -
  obtain rT gT bT where c: "hexToRgb (colorPicker s) = (rT, gT, bT)"
    by (cases "hexToRgb (colorPicker s)") auto
  obtain hT sT lT where t: "rgbToHsl (byte_num rT) (byte_num gT) (byte_num bT) = (hT, sT, lT)"
    by (cases "rgbToHsl (byte_num rT) (byte_num gT) (byte_num bT)") auto
  from applyColor_masked [OF assms(1,2) c t assms(3)] show ?thesis by blast
qed

text \<open>The pixel that the loop leaves at an index that both buffers have.\<close>

lemma applyColor_pixel:
  assumes "originalImage s = Some img" and "maskCanvas s = Some m"
    and "hexToRgb (colorPicker s) = (rT, gT, bT)"
    and "rgbToHsl (byte_num rT) (byte_num gT) (byte_num bT) = (hT, sT, lT)"
    and "i < length (sourceData B img s)" and "i < length (cpixels m)"
  shows "\<exists>t. applyColor B s = Inr t
     \<and> length (cpixels (mainCanvas t)) = length (sourceData B img s)
     \<and> cpixels (mainCanvas t) ! i
         = paintPixel hT sT (sourceData B img s ! i) (alpha (cpixels m ! i))"
proof -
  from assms(5) have ne: "sourceData B img s \<noteq> []" by auto
  from applyColor_masked [OF assms(1-4) ne] obtain t maskData where
    t: "applyColor B s = Inr t"
      "getImageData B m (cwidth (mainCanvas s)) (cheight (mainCanvas s)) = Inr maskData"
      "length maskData = length (sourceData B img s)"
      "cpixels (mainCanvas t) = paintLoop hT sT (sourceData B img s) maskData"
    by blast
  from getImageData_length [OF t(2)] t(3) assms(5)
  have "i < cwidth (mainCanvas s) * cheight (mainCanvas s)" by simp
  from getImageData_nth [OF t(2) assms(6) this] have "maskData ! i = cpixels m ! i" .
  with t assms(5) show ?thesis by (simp add: paintLoop_nth length_paintLoop)
qed

text \<open>
  On a canvas without pixels \<^verbatim>\<open>getImageData\<close> throws. The status then reads ``Applying
  color...'', and picture and mask are as before.
\<close>

lemma applyColor_empty_canvas:
  assumes "originalImage s = Some img" and "maskCanvas s = Some m"
    and "cwidth (mainCanvas s) = 0 \<or> cheight (mainCanvas s) = 0"
  shows "\<exists>t. applyColor B s = Inl (IndexSizeError (sizeErrorMessage B), t)
     \<and> originalImage t = Some img \<and> maskCanvas t = Some m
     \<and> statusMessage t = (''Applying color...'', StatusNormal)"
  using assms
  by (auto simp: applyColor_def getImageData_def setStatus_def Let_def split: prod.splits)

lemma halving: "js_div 2048 4096 = 1 / 2" "js_mul 1 (1 / 2) = 1 / 2"
  by (simp_all add: fl_eval cong: eval_cong)

lemma wide_image_canvas:
  "cwidth (mainCanvas (img_onload B wide_image s)) = 2048
   \<and> cheight (mainCanvas (img_onload B wide_image s)) = 0"
  by (simp add: img_onload_def wide_image_def MAX_WIDTH_def halving setStatus_def drawImage_def
      blankCanvas_def)

section \<open>The canvases stay well formed\<close>

lemma wellformed_img_onload: "wellformed (img_onload B img s)"
  by (simp add: wellformed_def img_onload_def setStatus_def Let_def wellformed_drawImage
      wellformed_blankCanvas)

lemma wellformed_status:
  "wellformed (setStatus msg type s) = wellformed s"
  "wellformed (setLoading b s) = wellformed s"
  "wellformed (s\<lparr>btnApply_disabled := d\<rparr>) = wellformed s"
  "wellformed (s\<lparr>currentFile := f\<rparr>) = wellformed s"
  "wellformed (s\<lparr>colorPicker := hex\<rparr>) = wellformed s"
  "wellformed (s\<lparr>modeToggle := checked\<rparr>) = wellformed s"
  by (simp_all add: wellformed_def setStatus_def setLoading_def split: option.splits)

lemma wellformed_catch: "wellformed (handleMasking_catch err s) = wellformed s"
  by (simp add: handleMasking_catch_def wellformed_status)

lemma wellformed_begin: "wellformed (handleMasking_begin s) = wellformed s"
  by (simp add: handleMasking_begin_def wellformed_status)

lemma wellformed_applyColor:
  assumes "wellformed s"
  shows "case applyColor B s of Inl (err, t) \<Rightarrow> wellformed t | Inr t \<Rightarrow> wellformed t"
proof (cases "originalImage s")
  case None
  with assms show ?thesis by (simp add: applyColor_def)
next
  case (Some img)
  show ?thesis
  proof (cases "maskCanvas s")
    case None
    with Some assms show ?thesis by (simp add: applyColor_def)
  next
    case m: (Some m)
    let ?w = "cwidth (mainCanvas s)" and ?h = "cheight (mainCanvas s)"
    let ?c = "drawImage B img (of_nat ?w) (of_nat ?h) (mainCanvas s)"
    from assms m have wc: "wellformed_canvas ?c" and wm: "wellformed_canvas m"
      and sz: "cwidth m = ?w" "cheight m = ?h"
      by (simp_all add: wellformed_def wellformed_drawImage)
    have dim: "cwidth ?c = ?w" "cheight ?c = ?h" by (simp_all add: drawImage_def)
    show ?thesis
    proof (cases "0 < ?w \<and> 0 < ?h")
      case False
      with Some m wc wm sz dim show ?thesis
        by (auto simp: applyColor_def getImageData_def setStatus_def Let_def wellformed_def
            split: prod.splits)
    next
      case True
      with wc wm sz dim have
        "getImageData B ?c ?w ?h = Inr (cpixels ?c)" "getImageData B m ?w ?h = Inr (cpixels m)"
        using getImageData_whole [of ?c B] getImageData_whole [of m B] by simp_all
      with Some m wc wm sz dim show ?thesis
        by (simp add: applyColor_def setStatus_def putImageData_def Let_def wellformed_def
            wellformed_canvas_def length_paintLoop split: prod.splits)
    qed
  qed
qed

lemma wellformed_loadMask:
  assumes "wellformed s"
  shows "case loadMask B N v s of Inl (err, t) \<Rightarrow> wellformed t | Inr t \<Rightarrow> wellformed t"
  using assms wellformed_drawImage_blur [OF wellformed_blankCanvas]
  by (auto simp: loadMask_def wellformed_def Let_def drawImage_blur_def blankCanvas_def
      wellformed_canvas_def length_composite split: option.splits)

lemma wellformed_resume:
  assumes "wellformed s"
  shows "wellformed (fst (resume B N st s))"
proof (cases st)
  case (AwaitFetch form)
  with assms show ?thesis by (simp add: wellformed_catch split: sum.splits)
next
  case (AwaitJson resp)
  with assms show ?thesis by (simp add: wellformed_catch split: sum.splits)
next
  case (AwaitMask v)
  show ?thesis
  proof (cases "loadMask B N v s")
    case (Inl failure)
    with AwaitMask wellformed_loadMask [OF assms, of B N v] show ?thesis
      by (cases failure) (simp add: wellformed_catch)
  next
    case (Inr s1)
    with wellformed_loadMask [OF assms, of B N v] have "wellformed s1" by simp
    then have w: "wellformed
        ((setStatus ''Mask generated successfully!'' StatusSuccess s1)\<lparr>btnApply_disabled := False\<rparr>)"
      by (simp add: wellformed_status)
    from wellformed_applyColor [OF w, of B] AwaitMask Inr show ?thesis
      by (auto simp: wellformed_catch wellformed_status Let_def split: sum.splits)
  qed
qed

lemma wellformed_step:
  assumes "wellformed (fst p)"
  shows "wellformed (fst (step B ev p))"
proof (cases p)
  case (Pair s calls)
  with assms have w: "wellformed s" by simp
  show ?thesis
  proof (cases ev)
    case (FileChosen chosen)
    with Pair w show ?thesis
      by (simp add: handleImageUpload_def wellformed_status split: option.splits)
  next
    case (ImageLoads img)
    with Pair show ?thesis by (simp add: wellformed_img_onload)
  next
    case (MaskClick N)
    with Pair w show ?thesis by (simp add: wellformed_begin Let_def split: option.splits)
  next
    case (Settles k)
    show ?thesis
    proof (cases "k < length calls")
      case True
      obtain t nxt where r: "resume B (fst (calls ! k)) (snd (calls ! k)) s = (t, nxt)"
        by (cases "resume B (fst (calls ! k)) (snd (calls ! k)) s") auto
      with wellformed_resume [OF w, of B "fst (calls ! k)" "snd (calls ! k)"]
      have "wellformed t" by simp
      with Pair Settles True r show ?thesis by (cases nxt) simp_all
    next
      case False
      with Pair Settles w show ?thesis by simp
    qed
  next
    case ApplyClick
    with Pair w wellformed_applyColor [OF w, of B] show ?thesis
      by (auto split: sum.splits)
  next
    case (PickColor hex)
    with Pair w show ?thesis by (simp add: wellformed_status)
  next
    case (ToggleMode checked)
    with Pair w show ?thesis by (simp add: wellformed_status)
  qed
qed

lemma run_wellformed: "wellformed (fst p) \<Longrightarrow> wellformed (fst (run B evs p))"
  by (induction evs arbitrary: p) (simp_all add: wellformed_step)

section \<open>Handlers that are not interrupted\<close>

text \<open>
  When no other event comes between a click on the Mask button and the answers to its call,
  the call is \<open>handleMasking\<close>; a file whose image loads at once is \<open>handleImageUpload\<close>.
\<close>

lemma maskForm_begin: "maskForm f (handleMasking_begin s) = maskForm f s"
  by (simp add: maskForm_def handleMasking_begin_def setStatus_def setLoading_def)

lemma handleMasking_uninterrupted:
  assumes "\<not> btnMask_disabled s"
  shows "run B [MaskClick N, Settles 0, Settles 0, Settles 0] (s, []) = (handleMasking B N s, [])"
proof (cases "currentFile s")
  case None
  with assms show ?thesis by (simp add: handleMasking_def)
next
  case (Some f)
  let ?s1 = "handleMasking_begin s"
  show ?thesis
  proof (cases "fetch N (maskForm f ?s1)")
    case (Inl err)
    with Some assms show ?thesis
      by (simp add: handleMasking_def handleMasking_try_def Let_def)
  next
    case (Inr resp)
    show ?thesis
    proof (cases "ok resp")
      case False
      with Inr Some assms show ?thesis
        by (simp add: handleMasking_def handleMasking_try_def Let_def)
    next
      case True
      show ?thesis
      proof (cases "json resp")
        case (Inl err)
        with True Inr Some assms show ?thesis
          by (simp add: handleMasking_def handleMasking_try_def Let_def)
      next
        case data: (Inr data)
        show ?thesis
        proof (cases "truthy (data ''maskPngBase64'')")
          case False
          with data True Inr Some assms show ?thesis
            by (simp add: handleMasking_def handleMasking_try_def Let_def)
        next
          case field: True
          with data True Inr Some assms show ?thesis
            by (auto simp: handleMasking_def handleMasking_try_def Let_def
                split: sum.splits prod.splits)
        qed
      qed
    qed
  qed
qed

lemma handleImageUpload_events:
  "run B [FileChosen (Some f), ImageLoads img] (s, calls)
     = (handleImageUpload B (Some f) (Some img) s, calls)"
  by (simp add: handleImageUpload_def)

section \<open>The concrete sessions\<close>

lemma example_render:
  "render example_browser img w h cw ch = bitmap img"
  "renderBlur example_browser img w h cw ch = bitmap img"
  by (simp_all add: example_browser_def)

lemma sourceOver_examples:
  "sourceOver grey d = grey" "sourceOver white d = white"
  "sourceOver \<lparr>red = 0, green = 0, blue = 0, alpha = 255\<rparr> d
     = \<lparr>red = 0, green = 0, blue = 0, alpha = 255\<rparr>"
  "sourceOver \<lparr>red = 0, green = 0, blue = 0, alpha = 0\<rparr> transparent = transparent"
  "sourceOver \<lparr>red = 0, green = 0, blue = 0, alpha = 0\<rparr>
     \<lparr>red = 0, green = 0, blue = 0, alpha = 0\<rparr> = \<lparr>red = 0, green = 0, blue = 0, alpha = 0\<rparr>"
  by (simp_all add: sourceOver_opaque grey_def white_def)
     (simp_all add: sourceOver_def transparent_def)

lemma blank_pair: "blankCanvas 2 (Suc 0) = \<lparr>cwidth = 2, cheight = 1, cpixels = [transparent, transparent]\<rparr>"
  by (simp add: blankCanvas_def numeral_2_eq_2)

lemma loaded_session_eq:
  "loaded_session =
    \<lparr>originalImage = Some example_image, maskCanvas = None, currentFile = Some [],
     mainCanvas = \<lparr>cwidth = 2, cheight = 1, cpixels = [grey, grey]\<rparr>,
     colorPicker = ''#FF0000'', modeToggle = False,
     btnMask_disabled = False, btnApply_disabled = True,
     statusMessage = (''Image loaded. Click 'Mask House' to detect areas.'', StatusNormal),
     loadingHidden = True, placeholderHidden = True\<rparr>"
  by (simp add: loaded_session_def empty_session_def handleImageUpload_def img_onload_def
      example_image_def example_browser_def drawImage_def setStatus_def MAX_WIDTH_def
      blank_pair sourceOver_examples)

lemma masked_session_fields:
  "originalImage masked_session = Some example_image"
  "maskCanvas masked_session = Some example_mask"
  "colorPicker masked_session = ''#FF0000''"
  "sourceData example_browser example_image masked_session = [grey, grey]"
  by (simp_all add: masked_session_def loaded_session_eq sourceData_def drawImage_def
      getImageData_def example_browser_def example_image_def sourceOver_examples)

section \<open>Mask alpha 0\<close>

text \<open>
  Claim C2. Where the alpha byte of the mask is 0, the pixel that \<^verbatim>\<open>applyColor\<close> leaves on
  the canvas is the pixel of the source buffer, in all four channels.
\<close>

theorem applyColor_mask_zero_unchanged:
  assumes "originalImage s = Some img" and "maskCanvas s = Some m"
    and "i < length (sourceData B img s)" and "i < length (cpixels m)"
    and "alpha (cpixels m ! i) = 0"
  shows "\<exists>t. applyColor B s = Inr t \<and> cpixels (mainCanvas t) ! i = sourceData B img s ! i"
proof -
  obtain rT gT bT where c: "hexToRgb (colorPicker s) = (rT, gT, bT)"
    by (cases "hexToRgb (colorPicker s)") auto
  obtain hT sT lT where t: "rgbToHsl (byte_num rT) (byte_num gT) (byte_num bT) = (hT, sT, lT)"
    by (cases "rgbToHsl (byte_num rT) (byte_num gT) (byte_num bT)") auto
  from applyColor_pixel [OF assms(1,2) c t assms(3,4)] assms(5) show ?thesis
    by (auto simp: paintPixel_zero)
qed

theorem applyColor_mask_zero_unchanged_witness:
  "\<exists>t. applyColor example_browser masked_session = Inr t
     \<and> cpixels (mainCanvas t) ! 1 = sourceData example_browser example_image masked_session ! 1"
  using applyColor_mask_zero_unchanged [of masked_session example_image example_mask 1 example_browser]
  by (simp add: masked_session_fields example_mask_def)

section \<open>The alpha channel\<close>

text \<open>
  Claim C10. \<^verbatim>\<open>applyColor\<close> keeps the alpha byte of every pixel of the source buffer; it
  writes the red, green and blue bytes only.
\<close>

theorem applyColor_alpha_preserved:
  assumes "originalImage s = Some img" and "maskCanvas s = Some m"
    and "i < length (sourceData B img s)"
  shows "\<exists>t. applyColor B s = Inr t
     \<and> length (cpixels (mainCanvas t)) = length (sourceData B img s)
     \<and> alpha (cpixels (mainCanvas t) ! i) = alpha (sourceData B img s ! i)"
proof -
  from assms(3) have ne: "sourceData B img s \<noteq> []" by auto
  from applyColor_masked_ex [OF assms(1,2) ne] obtain t hT sT maskData where
    t: "applyColor B s = Inr t"
      "cpixels (mainCanvas t) = paintLoop hT sT (sourceData B img s) maskData"
    by blast
  with assms(3) show ?thesis
    by (simp add: length_paintLoop alpha_paintLoop_nth)
qed

theorem applyColor_alpha_preserved_witness:
  "\<exists>t. applyColor example_browser masked_session = Inr t
     \<and> length (cpixels (mainCanvas t)) = length (sourceData example_browser example_image masked_session)
     \<and> alpha (cpixels (mainCanvas t) ! 0) = alpha (sourceData example_browser example_image masked_session ! 0)"
  using applyColor_alpha_preserved [of masked_session example_image example_mask 0 example_browser]
  by (simp add: masked_session_fields)

section \<open>Recolouring without a mask\<close>

text \<open>
  Claim C6, as the code has it. When there is no picture or no mask, \<^verbatim>\<open>applyColor\<close> returns
  at its guard: nothing is thrown and the session, status message included, is left as it was.
\<close>

theorem applyColor_not_masked_returns:
  assumes "originalImage s = None \<or> maskCanvas s = None"
  shows "applyColor B s = Inr s"
  using assms by (auto simp: applyColor_def split: option.splits)

theorem applyColor_not_masked_returns_witness:
  "(originalImage empty_session = None \<or> maskCanvas empty_session = None)
     \<and> applyColor example_browser empty_session = Inr empty_session"
  using applyColor_not_masked_returns [of empty_session example_browser]
  by (simp add: empty_session_def)

text \<open>
  The claim as stated fails on the session of a freshly opened page, which is in state
  \<open>Empty\<close>: the call returns normally.
\<close>

theorem applyColor_no_InvalidState:
  "spec_state empty_session = Empty
     \<and> applyColor example_browser empty_session = Inr empty_session"
  by (simp add: spec_state_def applyColor_def empty_session_def)

section \<open>Failing mask requests\<close>

lemma handleMasking_failure:
  assumes "currentFile s = Some f"
    and "handleMasking_try B N f (handleMasking_begin s) = Inl (err, handleMasking_begin s)"
  shows "handleMasking B N s =
     s\<lparr>statusMessage := (''Error generating mask: '' @ message err, StatusError),
       loadingHidden := True\<rparr>"
  using assms
  by (simp add: handleMasking_def handleMasking_catch_def handleMasking_begin_def setStatus_def
      setLoading_def)

text \<open>
  Claim C7. When the service answers with a successful status and a JSON object without the
  property \<^verbatim>\<open>maskPngBase64\<close>, the \<^verbatim>\<open>try\<close> block of \<^verbatim>\<open>handleMasking\<close> throws the error
  ``Invalid response: No mask data received'' before it has changed the session, the handler
  shows it as an error status, and the picture, the mask and with them the state of the session
  stay as they were.
\<close>

theorem missing_mask_field_fails:
  assumes "currentFile s = Some f"
    and "fetch N (maskForm f s) = Inr resp" and "ok resp"
    and "json resp = Inr data" and "data ''maskPngBase64'' = None"
  shows "handleMasking_try B N f (handleMasking_begin s)
       = Inl (Error ''Invalid response: No mask data received'', handleMasking_begin s)
     \<and> handleMasking B N s =
         s\<lparr>statusMessage :=
             (''Error generating mask: Invalid response: No mask data received'', StatusError),
           loadingHidden := True\<rparr>
     \<and> maskCanvas (handleMasking B N s) = maskCanvas s
     \<and> originalImage (handleMasking B N s) = originalImage s
     \<and> spec_state (handleMasking B N s) = spec_state s"
proof -
  from assms(2-5) have e: "handleMasking_try B N f (handleMasking_begin s)
      = Inl (Error ''Invalid response: No mask data received'', handleMasking_begin s)"
    by (simp add: handleMasking_try_def maskForm_begin)
  from handleMasking_failure [OF assms(1) e] show ?thesis
    using e by (simp add: spec_state_def split: option.splits)
qed

theorem missing_mask_field_fails_witness:
  "spec_state loaded_session = ImageLoaded
     \<and> handleMasking_try example_browser incomplete_network [] (handleMasking_begin loaded_session)
       = Inl (Error ''Invalid response: No mask data received'', handleMasking_begin loaded_session)
     \<and> spec_state (handleMasking example_browser incomplete_network loaded_session) = ImageLoaded
     \<and> maskCanvas (handleMasking example_browser incomplete_network loaded_session) = None"
  using missing_mask_field_fails [of loaded_session "[]" incomplete_network
      "\<lparr>ok = True, statusText = ''OK'', json = Inr (\<lambda>name. None)\<rparr>" "\<lambda>name. None" example_browser]
  by (simp add: loaded_session_eq incomplete_network_def spec_state_def)

text \<open>
  Claim C8. When the service answers with a status that is not successful, the \<^verbatim>\<open>try\<close>
  block of \<^verbatim>\<open>handleMasking\<close> throws an error whose message ends with the status text of the
  answer before it has changed the session, the handler shows it as an error status, and the
  picture, the mask (an earlier one too) and the state of the session stay as they were.
\<close>

theorem http_error_fails:
  assumes "currentFile s = Some f"
    and "fetch N (maskForm f s) = Inr resp" and "\<not> ok resp"
  shows "handleMasking_try B N f (handleMasking_begin s)
       = Inl (Error (''API Error: '' @ statusText resp), handleMasking_begin s)
     \<and> handleMasking B N s =
         s\<lparr>statusMessage := (''Error generating mask: API Error: '' @ statusText resp, StatusError),
           loadingHidden := True\<rparr>
     \<and> maskCanvas (handleMasking B N s) = maskCanvas s
     \<and> originalImage (handleMasking B N s) = originalImage s
     \<and> spec_state (handleMasking B N s) = spec_state s"
proof -
  from assms(2,3) have e: "handleMasking_try B N f (handleMasking_begin s)
      = Inl (Error (''API Error: '' @ statusText resp), handleMasking_begin s)"
    by (simp add: handleMasking_try_def maskForm_begin)
  from handleMasking_failure [OF assms(1) e] show ?thesis
    using e by (simp add: spec_state_def split: option.splits)
qed

theorem http_error_fails_witness:
  "handleMasking_try example_browser failing_network [] (handleMasking_begin masked_session)
       = Inl (Error ''API Error: Internal Server Error'', handleMasking_begin masked_session)
     \<and> maskCanvas (handleMasking example_browser failing_network masked_session) = Some example_mask
     \<and> spec_state (handleMasking example_browser failing_network masked_session) = Masked"
  using http_error_fails [of masked_session "[]" failing_network
      "\<lparr>ok = False, statusText = ''Internal Server Error'',
        json = Inl (Error ''Unexpected end of JSON input'')\<rparr>" example_browser]
  by (simp add: masked_session_def loaded_session_eq failing_network_def spec_state_def)

text \<open>
  The same holds when other events have come between the click and the answer: a call that
  ends before its mask image has loaded changes the status and the overlay only.
\<close>

lemma catch_fields:
  "originalImage (handleMasking_catch err s) = originalImage s"
  "maskCanvas (handleMasking_catch err s) = maskCanvas s"
  "mainCanvas (handleMasking_catch err s) = mainCanvas s"
  "btnApply_disabled (handleMasking_catch err s) = btnApply_disabled s"
  "spec_state (handleMasking_catch err s) = spec_state s"
  by (simp_all add: handleMasking_catch_def setStatus_def setLoading_def spec_state_def
      split: option.splits)


section \<open>Pure red on mid grey\<close>

lemma hexToRgb_red: "hexToRgb ''#FF0000'' = (255, 0, 0)"
  by (simp add: hexToRgb_def parseInt16_def hexDigit_def Let_def)

lemma rgbToHsl_red: "rgbToHsl 255 0 0 = (0, 1, 1 / 2)"
  by (simp add: rgbToHsl_def fl_eval cong: eval_cong)

lemma js_div_100_255: "js_div 100 255 = 7064470003718425 / 18014398509481984"
  by (simp add: fl_eval cong: eval_cong)

lemma rgbToHsl_grey: "rgbToHsl 100 100 100 = (0, 0, 7064470003718425 / 18014398509481984)"
  by (simp add: rgbToHsl_def fl_eval cong: eval_cong)

lemma q_red_grey:
  "js_mul (7064470003718425 / 18014398509481984) (js_add 1 1) = 7064470003718425 / 9007199254740992"
  by (simp add: fl_eval cong: eval_cong)

lemma p_red_grey:
  "js_sub (js_mul 2 (7064470003718425 / 18014398509481984)) (7064470003718425 / 9007199254740992) = 0"
  by (simp add: fl_eval cong: eval_cong)

lemma third_up: "js_add 0 (js_div 1 3) = 6004799503160661 / 18014398509481984"
  by (simp add: fl_eval cong: eval_cong)

lemma third_down: "js_sub 0 (js_div 1 3) = - (6004799503160661 / 18014398509481984)"
  by (simp add: fl_eval cong: eval_cong)

lemma hue2rgb_red_channel:
  "hue2rgb 0 (7064470003718425 / 9007199254740992) (6004799503160661 / 18014398509481984)
     = 7064470003718425 / 9007199254740992"
  by (simp add: hue2rgb_def fl_eval cong: eval_cong)

lemma hue2rgb_green_channel: "hue2rgb 0 (7064470003718425 / 9007199254740992) 0 = 0"
  by (simp add: hue2rgb_def fl_eval cong: eval_cong)

lemma hue2rgb_blue_channel:
  "hue2rgb 0 (7064470003718425 / 9007199254740992) (- (6004799503160661 / 18014398509481984)) = 0"
  by (simp add: hue2rgb_def fl_eval cong: eval_cong)

lemma round_red_channel: "math_round (js_mul (7064470003718425 / 9007199254740992) 255) = 200"
  by (simp add: math_round_def fl_eval cong: eval_cong)

lemma round_zero_channel: "math_round (js_mul 0 255) = 0"
  by (simp add: math_round_def fl_eval cong: eval_cong)

lemma hslToRgb_red_grey: "hslToRgb 0 1 (7064470003718425 / 18014398509481984) = (200, 0, 0)"
  by (simp add: hslToRgb_def q_red_grey p_red_grey third_up third_down hue2rgb_red_channel
      hue2rgb_green_channel hue2rgb_blue_channel round_red_channel round_zero_channel
      cong: eval_cong)

lemma alphaFactor_full: "js_div 255 255 = 1"
  by (simp add: fl_eval cong: eval_cong)

lemma lerp_full_values: "lerp 100 200 1 = 200" "lerp 100 0 1 = 0"
  by (simp_all add: lerp_def fl_eval cong: eval_cong)

lemma paintPixel_grey_red:
  "paintPixel 0 1 grey 255 = \<lparr>red = 200, green = 0, blue = 0, alpha = 255\<rparr>"
  by (simp add: paintPixel_def grey_def byte_num_def rgbToHsl_grey hslToRgb_red_grey
      alphaFactor_full lerp_full_values toUint8Clamp_def round_even_def cong: eval_cong)

text \<open>
  Claim C5. With the colour input at \<^verbatim>\<open>#FF0000\<close> (hue 0, saturation 1), a source pixel
  (100, 100, 100) and mask alpha 255, \<^verbatim>\<open>applyColor\<close> writes the pixel (200, 0, 0), which is
  \<^verbatim>\<open>hslToRgb(0, 1, 100 / 255)\<close>; the pixel under mask alpha 0 stays grey.
\<close>

theorem red_on_grey_scenario:
  "hexToRgb ''#FF0000'' = (255, 0, 0) \<and> rgbToHsl 255 0 0 = (0, 1, 1 / 2)
   \<and> rgbToHsl 100 100 100 = (0, 0, js_div 100 255)
   \<and> hslToRgb 0 1 (js_div 100 255) = (200, 0, 0)
   \<and> paintPixel 0 1 grey 255 = \<lparr>red = 200, green = 0, blue = 0, alpha = 255\<rparr>
   \<and> (\<exists>t. applyColor example_browser masked_session = Inr t
        \<and> cpixels (mainCanvas t) = [\<lparr>red = 200, green = 0, blue = 0, alpha = 255\<rparr>, grey])"
proof -
  have "hexToRgb (colorPicker masked_session) = (255, 0, 0)"
    by (simp add: masked_session_fields hexToRgb_red)
  moreover have "rgbToHsl (byte_num 255) (byte_num 0) (byte_num 0) = (0, 1, 1 / 2)"
    by (simp add: byte_num_def rgbToHsl_red)
  moreover have "sourceData example_browser example_image masked_session \<noteq> []"
    by (simp add: masked_session_fields)
  ultimately have "\<exists>t maskData. applyColor example_browser masked_session = Inr t
     \<and> originalImage t = originalImage masked_session
     \<and> maskCanvas t = maskCanvas masked_session
     \<and> colorPicker t = colorPicker masked_session
     \<and> cwidth (mainCanvas t) = cwidth (mainCanvas masked_session)
     \<and> cheight (mainCanvas t) = cheight (mainCanvas masked_session)
     \<and> getImageData example_browser example_mask (cwidth (mainCanvas masked_session))
           (cheight (mainCanvas masked_session)) = Inr maskData
     \<and> length maskData = length (sourceData example_browser example_image masked_session)
     \<and> cpixels (mainCanvas t) =
         paintLoop 0 1 (sourceData example_browser example_image masked_session) maskData"
    by (rule applyColor_masked [OF masked_session_fields(1,2)])
  moreover have "getImageData example_browser example_mask (cwidth (mainCanvas masked_session))
      (cheight (mainCanvas masked_session)) = Inr (cpixels example_mask)"
    by (simp add: masked_session_def loaded_session_eq getImageData_def example_mask_def)
  ultimately have "\<exists>t. applyColor example_browser masked_session = Inr t
     \<and> cpixels (mainCanvas t) = [\<lparr>red = 200, green = 0, blue = 0, alpha = 255\<rparr>, grey]"
    by (auto simp: masked_session_fields example_mask_def paintPixel_grey_red paintPixel_zero)
  then show ?thesis
    by (simp add: hexToRgb_red rgbToHsl_red rgbToHsl_grey js_div_100_255 hslToRgb_red_grey
        paintPixel_grey_red)
qed

section \<open>Mask alpha 255\<close>

text \<open>
  Claim C1. Where the alpha byte of the mask is 255, the red, green and blue bytes that
  \<^verbatim>\<open>applyColor\<close> leaves on the canvas are the three numbers of \<^verbatim>\<open>hslToRgb(hT, sT, l)\<close>,
  for the hue \<open>hT\<close> and the saturation \<open>sT\<close> of the colour in the colour input and the
  lightness \<open>l\<close> of the pixel of the source buffer.
\<close>

theorem applyColor_full_mask:
  assumes "originalImage s = Some img" and "maskCanvas s = Some m"
    and "i < length (sourceData B img s)" and "i < length (cpixels m)"
    and "alpha (cpixels m ! i) = 255"
    and "hexToRgb (colorPicker s) = (rT, gT, bT)"
    and "rgbToHsl (byte_num rT) (byte_num gT) (byte_num bT) = (hT, sT, lT)"
    and "rgbToHsl (byte_num (red (sourceData B img s ! i)))
           (byte_num (green (sourceData B img s ! i)))
           (byte_num (blue (sourceData B img s ! i))) = (h, s', l)"
  shows "\<exists>t. applyColor B s = Inr t
     \<and> (byte_num (red (cpixels (mainCanvas t) ! i)),
        byte_num (green (cpixels (mainCanvas t) ! i)),
        byte_num (blue (cpixels (mainCanvas t) ! i))) = hslToRgb hT sT l"
proof -
  from applyColor_pixel [OF assms(1,2,6,7,3,4)] assms(5) obtain t where
    t: "applyColor B s = Inr t"
    and p: "cpixels (mainCanvas t) ! i = paintPixel hT sT (sourceData B img s ! i) 255"
    by auto
  from paintPixel_full [OF assms(7,8)] obtain a b c where
    abc: "a \<le> 255" "b \<le> 255" "c \<le> 255" "hslToRgb hT sT l = (real a, real b, real c)"
      "paintPixel hT sT (sourceData B img s ! i) 255
        = (sourceData B img s ! i)\<lparr>red := of_nat a, green := of_nat b, blue := of_nat c\<rparr>"
    by blast
  from abc(1-3) have "(byte_num (red (cpixels (mainCanvas t) ! i)),
        byte_num (green (cpixels (mainCanvas t) ! i)),
        byte_num (blue (cpixels (mainCanvas t) ! i))) = (real a, real b, real c)"
    by (simp add: p abc(5) byte_num_of_nat)
  with t abc(4) show ?thesis by simp
qed

theorem applyColor_full_mask_witness:
  "\<exists>t. applyColor example_browser masked_session = Inr t
     \<and> (byte_num (red (cpixels (mainCanvas t) ! 0)),
        byte_num (green (cpixels (mainCanvas t) ! 0)),
        byte_num (blue (cpixels (mainCanvas t) ! 0)))
       = hslToRgb 0 1 (7064470003718425 / 18014398509481984)"
  using applyColor_full_mask [of masked_session example_image example_mask 0 example_browser
      255 0 0 0 1 "1 / 2" 0 0 "7064470003718425 / 18014398509481984"]
  by (simp add: masked_session_fields example_mask_def hexToRgb_red byte_num_def rgbToHsl_red
      grey_def rgbToHsl_grey)

section \<open>The round trip of the colour conversion\<close>

text \<open>
  Claim C3. For bytes \<open>R\<close>, \<open>G\<close>, \<open>B\<close>, converting with \<^verbatim>\<open>rgbToHsl\<close> and back with
  \<^verbatim>\<open>hslToRgb\<close> gives three channels that each differ from the byte they came from by at
  most 1. (By \<open>hslToRgb_rgbToHsl\<close> they do not differ at all.)
\<close>

theorem rgb_hsl_roundtrip:
  assumes "R \<le> 255" and "G \<le> 255" and "B \<le> 255"
  shows "case rgbToHsl (real R) (real G) (real B) of
      (h, s, l) \<Rightarrow>
        (case hslToRgb h s l of
           (r', g', b') \<Rightarrow> \<bar>r' - real R\<bar> \<le> 1 \<and> \<bar>g' - real G\<bar> \<le> 1 \<and> \<bar>b' - real B\<bar> \<le> 1)"
proof -
  obtain h s l where rgb: "rgbToHsl (real R) (real G) (real B) = (h, s, l)"
    by (cases "rgbToHsl (real R) (real G) (real B)") auto
  from hslToRgb_rgbToHsl [OF assms rgb] rgb show ?thesis by simp
qed

theorem rgb_hsl_roundtrip_witness:
  "case rgbToHsl 200 30 40 of
      (h, s, l) \<Rightarrow>
        (case hslToRgb h s l of
           (r', g', b') \<Rightarrow> \<bar>r' - 200\<bar> \<le> 1 \<and> \<bar>g' - 30\<bar> \<le> 1 \<and> \<bar>b' - 40\<bar> \<le> 1)"
  using rgb_hsl_roundtrip [of 200 30 40] by simp

section \<open>Loading a new picture\<close>





text \<open>
  When a mask does arrive and a picture is loaded, the session is in state \<open>Masked\<close> with the
  Apply button enabled from then on, also when \<^verbatim>\<open>applyColor\<close> throws on an empty canvas.
\<close>

lemma applyColor_keeps:
  "case applyColor B s of
     Inl (err, t) \<Rightarrow> originalImage t = originalImage s \<and> maskCanvas t = maskCanvas s
       \<and> btnApply_disabled t = btnApply_disabled s
   | Inr t \<Rightarrow> originalImage t = originalImage s \<and> maskCanvas t = maskCanvas s
       \<and> btnApply_disabled t = btnApply_disabled s"
  by (cases "originalImage s"; cases "maskCanvas s")
     (auto simp: applyColor_def setStatus_def Let_def split: prod.splits sum.splits)

lemma mask_arrival_masks:
  assumes "mask_arrives (Settles k) (s, calls)" and "originalImage s = Some img"
  shows "spec_state (fst (step B (Settles k) (s, calls))) = Masked
     \<and> btnApply_disabled (fst (step B (Settles k) (s, calls))) = False"
proof -
  from assms(1) obtain v mimg where k: "k < length calls"
    and st: "snd (calls ! k) = AwaitMask v" and d: "decodeMask (fst (calls ! k)) v = Some mimg"
    by (auto split: if_splits stage.splits option.splits)
  define m where "m = drawImage_blur B mimg (of_nat (cwidth (mainCanvas s)))
    (of_nat (cheight (mainCanvas s))) (blankCanvas (cwidth (mainCanvas s)) (cheight (mainCanvas s)))"
  define s3 where
    "s3 = (setStatus ''Mask generated successfully!'' StatusSuccess (s\<lparr>maskCanvas := Some m\<rparr>))
       \<lparr>btnApply_disabled := False\<rparr>"
  have f: "originalImage s3 = Some img" "maskCanvas s3 = Some m" "btnApply_disabled s3 = False"
    using assms(2) by (simp_all add: s3_def setStatus_def)
  have r: "resume B (fst (calls ! k)) (AwaitMask v) s =
      (case applyColor B s3 of
         Inl (err, s4) \<Rightarrow> (handleMasking_catch err s4, None)
       | Inr s4 \<Rightarrow> (setLoading False s4, None))"
    using d by (simp add: loadMask_def Let_def s3_def m_def)
  from applyColor_keeps [where B = B and s = s3] f
  have "spec_state (fst (resume B (fst (calls ! k)) (AwaitMask v) s)) = Masked
     \<and> btnApply_disabled (fst (resume B (fst (calls ! k)) (AwaitMask v) s)) = False"
    unfolding r
    by (auto simp: catch_fields spec_state_def setLoading_def split: sum.splits)
  with k st show ?thesis by (auto split: prod.splits option.splits)
qed











section \<open>Repeated application\<close>

text \<open>
  \<^verbatim>\<open>applyColor\<close> draws the original picture again before it reads the source buffer
  (``Redraw original first to clear previous paints''). Where the picture is opaque and
  covers the canvas, the drawing replaces what was painted, and a second application reads the
  same source buffer and leaves the same session.
\<close>

lemma redraw_opaque:
  assumes "\<forall>p \<in> set (render B img w h (cwidth c) (cheight c)). alpha p = 255"
    and "length (cpixels c) \<le> length (render B img w h (cwidth c) (cheight c))"
  shows "cpixels (drawImage B img w h c)
     = take (length (cpixels c)) (render B img w h (cwidth c) (cheight c))"
  using assms by (simp add: drawImage_def composite_opaque)

lemma applyColor_idempotent_opaque:
  assumes "originalImage s = Some img" and "maskCanvas s = Some m"
    and "wellformed_canvas (mainCanvas s)"
    and "0 < cwidth (mainCanvas s)" and "0 < cheight (mainCanvas s)"
    and "\<forall>p \<in> set (render B img (of_nat (cwidth (mainCanvas s))) (of_nat (cheight (mainCanvas s)))
           (cwidth (mainCanvas s)) (cheight (mainCanvas s))). alpha p = 255"
    and "cwidth (mainCanvas s) * cheight (mainCanvas s)
       \<le> length (render B img (of_nat (cwidth (mainCanvas s))) (of_nat (cheight (mainCanvas s)))
           (cwidth (mainCanvas s)) (cheight (mainCanvas s)))"
  shows "\<exists>t. applyColor B s = Inr t \<and> applyColor B t = Inr t
     \<and> sourceData B img t = sourceData B img s"
proof -
  let ?w = "cwidth (mainCanvas s)" and ?h = "cheight (mainCanvas s)"
  let ?R = "render B img (of_nat ?w) (of_nat ?h) ?w ?h"
  have d: "cpixels (drawImage B img (of_nat ?w) (of_nat ?h) c) = take (?w * ?h) ?R"
    if "cwidth c = ?w" "cheight c = ?h" "length (cpixels c) = ?w * ?h" for c
    using redraw_opaque [of B img "of_nat ?w" "of_nat ?h" c] that assms(6,7) by simp
  have g: "getImageData B c ?w ?h = Inr (take (?w * ?h) ?R)"
    if "cpixels c = take (?w * ?h) ?R" for c
    using that assms(4,5,7) by (simp add: getImageData_def)
  from assms(4,5) have "sourceData B img s \<noteq> []"
    using g [OF d [of "mainCanvas s"]] assms(3,7)
    by (auto simp: sourceData_def wellformed_canvas_def Let_def)
  obtain rT gT bT where c: "hexToRgb (colorPicker s) = (rT, gT, bT)"
    by (cases "hexToRgb (colorPicker s)") auto
  obtain hT sT lT where t: "rgbToHsl (byte_num rT) (byte_num gT) (byte_num bT) = (hT, sT, lT)"
    by (cases "rgbToHsl (byte_num rT) (byte_num gT) (byte_num bT)") auto
  obtain maskData where md: "getImageData B m ?w ?h = Inr maskData"
    using assms(4,5) by (auto simp: getImageData_def)
  define painted where "painted = paintLoop hT sT (take (?w * ?h) ?R) maskData"
  have lp: "length painted = ?w * ?h"
    using assms(7) by (simp add: painted_def length_paintLoop)
  define t where "t = s\<lparr>mainCanvas := (mainCanvas s)\<lparr>cpixels := painted\<rparr>,
    statusMessage := (''Color applied.'', StatusSuccess)\<rparr>"
  have first: "applyColor B s = Inr t"
    using assms(1,2) c t md g [OF d [of "mainCanvas s"]] assms(3)
    by (simp add: applyColor_def setStatus_def putImageData_def Let_def t_def painted_def
        wellformed_canvas_def drawImage_def)
  have tf: "originalImage t = Some img" "maskCanvas t = Some m" "colorPicker t = colorPicker s"
    "cwidth (mainCanvas t) = ?w" "cheight (mainCanvas t) = ?h"
    "cpixels (mainCanvas t) = painted"
    using assms(1,2) by (simp_all add: t_def)
  have dt: "cpixels (drawImage B img (of_nat ?w) (of_nat ?h) (mainCanvas t)) = take (?w * ?h) ?R"
    by (rule d) (simp_all add: tf lp)
  have second: "applyColor B t = Inr t"
    using tf c t md g [OF dt] dt
    by (simp add: applyColor_def setStatus_def putImageData_def Let_def painted_def drawImage_def)
       (simp add: t_def painted_def)
  have "sourceData B img t = sourceData B img s"
    using g [OF dt] g [OF d [of "mainCanvas s"]] assms(3) tf
    by (simp add: sourceData_def Let_def wellformed_canvas_def)
  with first second show ?thesis by blast
qed

text \<open>The half transparent picture on the canvas, and what drawing it again makes of it.\<close>

lemma sourceOver_translucent:
  "sourceOver translucent transparent = translucent"
  "sourceOver translucent translucent = \<lparr>red = 100, green = 100, blue = 100, alpha = 192\<rparr>"
  "sourceOver translucent \<lparr>red = 200, green = 0, blue = 0, alpha = 192\<rparr>
     = \<lparr>red = 143, green = 57, blue = 57, alpha = 224\<rparr>"
  "sourceOver translucent \<lparr>red = 100, green = 100, blue = 100, alpha = 192\<rparr>
     = \<lparr>red = 100, green = 100, blue = 100, alpha = 224\<rparr>"
  by (simp_all add: sourceOver_def translucent_def transparent_def nearest_def)

lemma translucent_session_eq:
  "translucent_session =
    \<lparr>originalImage = Some translucent_image, maskCanvas = Some example_mask, currentFile = Some [],
     mainCanvas = \<lparr>cwidth = 2, cheight = 1, cpixels = [translucent, translucent]\<rparr>,
     colorPicker = ''#FF0000'', modeToggle = False,
     btnMask_disabled = False, btnApply_disabled = False,
     statusMessage = (''Image loaded. Click 'Mask House' to detect areas.'', StatusNormal),
     loadingHidden = True, placeholderHidden = True\<rparr>"
  by (simp add: translucent_session_def translucent_loaded_def empty_session_def
      handleImageUpload_def img_onload_def translucent_image_def example_render drawImage_def
      setStatus_def MAX_WIDTH_def blank_pair sourceOver_translucent)

lemma paintPixel_grey_red_192:
  "paintPixel 0 1 \<lparr>red = 100, green = 100, blue = 100, alpha = 192\<rparr> 255
     = \<lparr>red = 200, green = 0, blue = 0, alpha = 192\<rparr>"
  by (simp add: paintPixel_def byte_num_def rgbToHsl_grey hslToRgb_red_grey
      alphaFactor_full lerp_full_values toUint8Clamp_def round_even_def cong: eval_cong)

lemma translucent_first:
  "applyColor example_browser translucent_session =
    Inr (translucent_session
      \<lparr>mainCanvas := \<lparr>cwidth = 2, cheight = 1,
         cpixels = [\<lparr>red = 200, green = 0, blue = 0, alpha = 192\<rparr>,
                    \<lparr>red = 100, green = 100, blue = 100, alpha = 192\<rparr>]\<rparr>,
       statusMessage := (''Color applied.'', StatusSuccess)\<rparr>)"
  by (simp add: translucent_session_eq applyColor_def setStatus_def hexToRgb_red byte_num_def
      rgbToHsl_red drawImage_def example_render translucent_image_def sourceOver_translucent
      getImageData_def putImageData_def example_mask_def paintPixel_grey_red_192 paintPixel_zero)

text \<open>
  Claim C4 fails on a picture with transparency. \<^verbatim>\<open>drawImage\<close> lays the picture over the
  canvas, it does not clear it. The picture of two half transparent grey pixels comes to the
  canvas with alpha 128; the first \<^verbatim>\<open>applyColor\<close> reads a source buffer with alpha 192 and
  leaves a red and a grey pixel; the second reads a source buffer in which the red paint of
  the first shows through, and leaves alpha 224 where the first left 192.
\<close>

theorem applyColor_twice_translucent:
  "\<exists>t1 t2. applyColor example_browser translucent_session = Inr t1
     \<and> applyColor example_browser t1 = Inr t2
     \<and> cpixels (mainCanvas translucent_session) = [translucent, translucent]
     \<and> sourceData example_browser translucent_image translucent_session
         = [\<lparr>red = 100, green = 100, blue = 100, alpha = 192\<rparr>,
            \<lparr>red = 100, green = 100, blue = 100, alpha = 192\<rparr>]
     \<and> cpixels (mainCanvas t1)
         = [\<lparr>red = 200, green = 0, blue = 0, alpha = 192\<rparr>,
            \<lparr>red = 100, green = 100, blue = 100, alpha = 192\<rparr>]
     \<and> sourceData example_browser translucent_image t1
         = [\<lparr>red = 143, green = 57, blue = 57, alpha = 224\<rparr>,
            \<lparr>red = 100, green = 100, blue = 100, alpha = 224\<rparr>]
     \<and> cpixels (mainCanvas t2) ! 1 = \<lparr>red = 100, green = 100, blue = 100, alpha = 224\<rparr>"
proof -
  define t1 where "t1 = translucent_session
      \<lparr>mainCanvas := \<lparr>cwidth = 2, cheight = 1,
         cpixels = [\<lparr>red = 200, green = 0, blue = 0, alpha = 192\<rparr>,
                    \<lparr>red = 100, green = 100, blue = 100, alpha = 192\<rparr>]\<rparr>,
       statusMessage := (''Color applied.'', StatusSuccess)\<rparr>"
  have f: "originalImage t1 = Some translucent_image" "maskCanvas t1 = Some example_mask"
    "colorPicker t1 = ''#FF0000''"
    by (simp_all add: t1_def translucent_session_eq)
  have s0: "sourceData example_browser translucent_image translucent_session
      = [\<lparr>red = 100, green = 100, blue = 100, alpha = 192\<rparr>,
         \<lparr>red = 100, green = 100, blue = 100, alpha = 192\<rparr>]"
    by (simp add: sourceData_def translucent_session_eq drawImage_def example_render
        translucent_image_def sourceOver_translucent getImageData_def)
  have s1: "sourceData example_browser translucent_image t1
      = [\<lparr>red = 143, green = 57, blue = 57, alpha = 224\<rparr>,
         \<lparr>red = 100, green = 100, blue = 100, alpha = 224\<rparr>]"
    by (simp add: sourceData_def t1_def translucent_session_eq drawImage_def example_render
        translucent_image_def sourceOver_translucent getImageData_def)
  have h: "hexToRgb (colorPicker t1) = (255, 0, 0)" by (simp add: f hexToRgb_red)
  have r: "rgbToHsl (byte_num 255) (byte_num 0) (byte_num 0) = (0, 1, 1 / 2)"
    by (simp add: byte_num_def rgbToHsl_red)
  have i: "1 < length (sourceData example_browser translucent_image t1)"
    "1 < length (cpixels example_mask)"
    by (simp_all add: s1 example_mask_def)
  from applyColor_pixel [OF f(1,2) h r i] obtain t2 where
    t2: "applyColor example_browser t1 = Inr t2"
      "cpixels (mainCanvas t2) ! 1
        = paintPixel 0 1 (sourceData example_browser translucent_image t1 ! 1)
            (alpha (cpixels example_mask ! 1))"
    by blast
  from t2(2) have "cpixels (mainCanvas t2) ! 1 = \<lparr>red = 100, green = 100, blue = 100, alpha = 224\<rparr>"
    by (simp add: s1 example_mask_def paintPixel_zero)
  moreover have "applyColor example_browser translucent_session = Inr t1"
    by (simp only: translucent_first t1_def)
  moreover have "cpixels (mainCanvas translucent_session) = [translucent, translucent]"
    by (simp add: translucent_session_eq)
  moreover have "cpixels (mainCanvas t1)
      = [\<lparr>red = 200, green = 0, blue = 0, alpha = 192\<rparr>,
         \<lparr>red = 100, green = 100, blue = 100, alpha = 192\<rparr>]"
    by (simp add: t1_def)
  ultimately show ?thesis using t2(1) s0 s1 by blast
qed

end
